theory Spec2Isabelle
  imports Main "HOL-Library.Multiset"
begin

unbundle bit_operations_syntax

section \<open>The DOM as the focus utilities observe it\<close>

text \<open>
  The focus utilities read a handful of attributes of an element and walk its
  \<open>parentElement\<close> chain. An element carries the attributes the selectors test and its
  parent, so the walk up the tree is structural. \<open>nodeId\<close> stands for object identity:
  two elements of one document differ in it, and \<open>===\<close> on elements is equality here.
  The \<open>tabindex\<close> attribute is kept as the integer it parses to. \<open>detailsSummary\<close>
  says that the element is a \<open>summary\<close> and the summary of its parent \<open>details\<close>.
\<close>

record attributes =
  nodeId :: nat
  tagName :: string
  contentEditable :: "string option"
  tabindexAttr :: "int option"
  hasHref :: bool
  disabled :: bool
  dataAutofocus :: bool
  styleDisplayNone :: bool
  detailsSummary :: bool

datatype element = Element (attrs: attributes) (parentElement: "element option")

text \<open>
  The \<open>tabIndex\<close> property the code reads is the platform's, a signed 32-bit integer:
  the parsed attribute when there is one and it is in that range, otherwise the default,
  which is 0 for the natively focusable tags and for the summary of a \<open>details\<close>, and
  -1 for every other element.
\<close>

definition tabIndexDefault :: "element \<Rightarrow> int" where
  "tabIndexDefault e =
     (if tagName (attrs e) \<in> set [''a'', ''area'', ''button'', ''frame'', ''iframe'',
                                 ''input'', ''object'', ''select'', ''textarea'']
         \<or> detailsSummary (attrs e)
      then 0 else - 1)"

definition tabIndex :: "element \<Rightarrow> int" where
  "tabIndex e =
     (case tabindexAttr (attrs e) of
        Some n \<Rightarrow> if - (2 ^ 31) \<le> n \<and> n \<le> 2 ^ 31 - 1 then n else tabIndexDefault e
      | None \<Rightarrow> tabIndexDefault e)"

fun inclusiveAncestors :: "element \<Rightarrow> element list" where
  "inclusiveAncestors (Element a p) =
     Element a p # (case p of None \<Rightarrow> [] | Some q \<Rightarrow> inclusiveAncestors q)"

text \<open>\<open>container.contains(target)\<close>: the target is the container or a descendant of it.\<close>

definition contains :: "element \<Rightarrow> element \<Rightarrow> bool" where
  "contains container target = (container \<in> set (inclusiveAncestors target))"

text \<open>
  What does not change during a call: the build flag \<open>process.env.NODE_ENV === 'test'\<close>,
  the elements of the document in tree order, its body, and the platform's decision
  whether a \<open>focus()\<close> call on an element takes effect (a disabled or hidden element
  refuses it). There is one document: every \<open>ownerDocument\<close> is this one.
\<close>

record platform =
  nodeEnvTest :: bool
  documentElements :: "element list"
  documentBody :: "element option"
  focusAccepted :: "element \<Rightarrow> bool"

text \<open>
  What a call changes: \<open>document.activeElement\<close>, and, to state what was and was not
  called, the \<open>focus\<close> calls (with their \<open>preventScroll\<close> option) and the
  \<open>select\<close> calls, in order.
\<close>

record focus_state =
  activeElement :: "element option"
  focusCalls :: "(element \<times> bool) list"
  selectCalls :: "element list"

definition focus_call :: "platform \<Rightarrow> element \<Rightarrow> bool \<Rightarrow> focus_state \<Rightarrow> focus_state" where
  "focus_call p e preventScroll st =
     st\<lparr>activeElement := (if focusAccepted p e then Some e else activeElement st),
        focusCalls := focusCalls st @ [(e, preventScroll)]\<rparr>"

definition select_call :: "element \<Rightarrow> focus_state \<Rightarrow> focus_state" where
  "select_call e st = st\<lparr>selectCalls := selectCalls st @ [e]\<rparr>"

section \<open>Selectors\<close>

type_synonym selector = "element \<Rightarrow> bool"

text \<open>
  A selector list matches when one of its members does (the \<open>join(',')\<close>). Each member of
  \<open>focusableSelector\<close> is a base selector extended by \<open>:not([tabindex='-1'])\<close>, and in
  the test build also by \<open>:not([style*='display: none'])\<close>.
\<close>

definition matches :: "element \<Rightarrow> selector list \<Rightarrow> bool" where
  "matches e sels = list_ex (\<lambda>sel. sel e) sels"

definition notTabindexMinusOne :: "bool \<Rightarrow> selector \<Rightarrow> selector" where
  "notTabindexMinusOne test sel =
     (if test
      then (\<lambda>e. sel e \<and> tabindexAttr (attrs e) \<noteq> Some (- 1) \<and> \<not> styleDisplayNone (attrs e))
      else (\<lambda>e. sel e \<and> tabindexAttr (attrs e) \<noteq> Some (- 1)))"

definition focusableSelector :: "bool \<Rightarrow> selector list" where
  "focusableSelector test =
     map (notTabindexMinusOne test)
       [\<lambda>e. contentEditable (attrs e) = Some ''true'',
        \<lambda>e. tabindexAttr (attrs e) \<noteq> None,
        \<lambda>e. tagName (attrs e) = ''a'' \<and> hasHref (attrs e),
        \<lambda>e. tagName (attrs e) = ''area'' \<and> hasHref (attrs e),
        \<lambda>e. tagName (attrs e) = ''button'' \<and> \<not> disabled (attrs e),
        \<lambda>e. tagName (attrs e) = ''iframe'',
        \<lambda>e. tagName (attrs e) = ''input'' \<and> \<not> disabled (attrs e),
        \<lambda>e. tagName (attrs e) = ''select'' \<and> \<not> disabled (attrs e),
        \<lambda>e. tagName (attrs e) = ''textarea'' \<and> \<not> disabled (attrs e)]"

definition autoFocusableSelector :: "bool \<Rightarrow> selector list" where
  "autoFocusableSelector test =
     map (notTabindexMinusOne test) [\<lambda>e. dataAutofocus (attrs e)]"

definition selectableSelector :: "selector list" where
  "selectableSelector =
     [\<lambda>e. tagName (attrs e) = ''textarea'', \<lambda>e. tagName (attrs e) = ''input'']"

text \<open>\<open>container.querySelectorAll(sel)\<close>: the proper descendants that match, in tree order.\<close>

definition querySelectorAll :: "platform \<Rightarrow> element \<Rightarrow> selector list \<Rightarrow> element list" where
  "querySelectorAll p container sels =
     filter (\<lambda>e. e \<noteq> container \<and> contains container e \<and> matches e sels)
       (documentElements p)"

section \<open>Arrays and numbers of the host language\<close>

text \<open>
  \<open>Array.prototype.sort\<close> with a comparator is stable; for a consistent comparator it
  returns the elements in ascending order. It is modelled by stable insertion: an element
  goes before the first one it does not compare greater than.
\<close>

fun js_insert :: "('a \<Rightarrow> 'a \<Rightarrow> int) \<Rightarrow> 'a \<Rightarrow> 'a list \<Rightarrow> 'a list" where
  "js_insert cmp x [] = [x]"
| "js_insert cmp x (y # ys) = (if cmp x y \<le> 0 then x # y # ys else y # js_insert cmp x ys)"

definition js_sort :: "('a \<Rightarrow> 'a \<Rightarrow> int) \<Rightarrow> 'a list \<Rightarrow> 'a list" where
  "js_sort cmp xs = foldr (js_insert cmp) xs []"

text \<open>\<open>xs.indexOf(x)\<close>: the first index of \<open>x\<close>, or -1.\<close>

fun indexOf :: "'a list \<Rightarrow> 'a \<Rightarrow> int" where
  "indexOf [] x = - 1"
| "indexOf (y # ys) x =
     (if y = x then 0 else (let i = indexOf ys x in if i = - 1 then - 1 else i + 1))"

text \<open>
  \<open>a % b\<close> truncates towards zero and is \<open>NaN\<close> for a zero divisor; \<open>xs[i]\<close> is
  \<open>undefined\<close> for \<open>NaN\<close> and for an index outside the array.
\<close>

definition js_rem :: "int \<Rightarrow> int \<Rightarrow> int option" where
  "js_rem a b = (if b = 0 then None else Some (sgn a * (\<bar>a\<bar> mod \<bar>b\<bar>)))"

definition js_index :: "'a list \<Rightarrow> int option \<Rightarrow> 'a option" where
  "js_index xs i =
     (case i of
        None \<Rightarrow> None
      | Some k \<Rightarrow> if 0 \<le> k \<and> k < int (length xs) then Some (xs ! nat k) else None)"

definition MAX_SAFE_INTEGER :: int where
  "MAX_SAFE_INTEGER = 2 ^ 53 - 1"

section \<open>focus-management (React)\<close>

definition Focus_First :: nat where "Focus_First = 2 ^ 0"
definition Focus_Previous :: nat where "Focus_Previous = 2 ^ 1"
definition Focus_Next :: nat where "Focus_Next = 2 ^ 2"
definition Focus_Last :: nat where "Focus_Last = 2 ^ 3"
definition Focus_WrapAround :: nat where "Focus_WrapAround = 2 ^ 4"
definition Focus_NoScroll :: nat where "Focus_NoScroll = 2 ^ 5"
definition Focus_AutoFocus :: nat where "Focus_AutoFocus = 2 ^ 6"

datatype FocusResult = Error | Overflow | Success | Underflow

datatype Direction = Direction_Previous | Direction_Next

fun direction_value :: "Direction \<Rightarrow> int" where
  "direction_value Direction_Previous = - 1"
| "direction_value Direction_Next = 1"

datatype FocusableMode = Strict | Loose

text \<open>The comparator of both element indexes: \<open>Math.sign((a.tabIndex || MAX) - (z.tabIndex || MAX))\<close>.\<close>

definition tabIndexOrMax :: "element \<Rightarrow> int" where
  "tabIndexOrMax e = (if tabIndex e = 0 then MAX_SAFE_INTEGER else tabIndex e)"

definition compareTabIndex :: "element \<Rightarrow> element \<Rightarrow> int" where
  "compareTabIndex a z = sgn (tabIndexOrMax a - tabIndexOrMax z)"

definition getFocusableElements :: "platform \<Rightarrow> element option \<Rightarrow> element list" where
  "getFocusableElements p container =
     (case container of
        None \<Rightarrow> []
      | Some c \<Rightarrow>
          js_sort compareTabIndex (querySelectorAll p c (focusableSelector (nodeEnvTest p))))"

definition getAutoFocusableElements :: "platform \<Rightarrow> element option \<Rightarrow> element list" where
  "getAutoFocusableElements p container =
     (case container of
        None \<Rightarrow> []
      | Some c \<Rightarrow>
          js_sort compareTabIndex (querySelectorAll p c (autoFocusableSelector (nodeEnvTest p))))"

text \<open>
  \<open>isFocusableElement\<close>: never the body; in \<open>Strict\<close> mode the element itself has to match,
  in \<open>Loose\<close> mode the element or one of its ancestors (the \<open>while\<close> loop over
  \<open>parentElement\<close>).
\<close>

fun matchesSelfOrAncestor :: "selector list \<Rightarrow> element \<Rightarrow> bool" where
  "matchesSelfOrAncestor sels (Element a p) =
     (if matches (Element a p) sels then True
      else (case p of None \<Rightarrow> False | Some q \<Rightarrow> matchesSelfOrAncestor sels q))"

definition isFocusableElement :: "platform \<Rightarrow> element \<Rightarrow> FocusableMode \<Rightarrow> bool" where
  "isFocusableElement p el mode =
     (if Some el = documentBody p then False
      else (case mode of
              Strict \<Rightarrow> matches el (focusableSelector (nodeEnvTest p))
            | Loose \<Rightarrow> matchesSelfOrAncestor (focusableSelector (nodeEnvTest p)) el))"

text \<open>\<open>focusElement\<close>: \<open>element?.focus({ preventScroll: true })\<close>.\<close>

definition focusElement :: "platform \<Rightarrow> element option \<Rightarrow> focus_state \<Rightarrow> focus_state" where
  "focusElement p el st = (case el of None \<Rightarrow> st | Some e \<Rightarrow> focus_call p e True st)"

definition isSelectableElement :: "element option \<Rightarrow> bool" where
  "isSelectableElement el = (case el of None \<Rightarrow> False | Some e \<Rightarrow> matches e selectableSelector)"

text \<open>
  \<open>sortByDomNode\<close>: the comparator asks \<open>compareDocumentPosition\<close>, which follows tree
  order. The position of an element is its first index in the document's elements;
  elements outside the document all get the position after the last one.
\<close>

definition documentPosition :: "platform \<Rightarrow> element \<Rightarrow> int" where
  "documentPosition p e =
     (let i = indexOf (documentElements p) e
      in if i = - 1 then int (length (documentElements p)) else i)"

definition compareDomNode :: "platform \<Rightarrow> element \<Rightarrow> element \<Rightarrow> int" where
  "compareDomNode p a z =
     (if documentPosition p a < documentPosition p z then - 1
      else if documentPosition p z < documentPosition p a then 1
      else 0)"

definition sortByDomNode :: "platform \<Rightarrow> element list \<Rightarrow> element list" where
  "sortByDomNode p nodes = js_sort (compareDomNode p) nodes"

text \<open>
  The arguments of \<open>focusIn\<close>: a container or an explicit list, the directive, and the
  options with their defaults (\<open>sorted = true\<close>, here \<open>sorted_opt\<close>, \<open>relativeTo = null\<close>,
  \<open>skipElements = []\<close>). A skipped element is an element or a ref to one.
\<close>

datatype container = Container element | Elements "element list"

datatype skipElement = SkipElement element | SkipRef "element option"

record focusIn_options =
  sorted_opt :: bool
  relativeTo :: "element option"
  skipElements :: "skipElement list"

definition default_options :: focusIn_options where
  "default_options = \<lparr>sorted_opt = True, relativeTo = None, skipElements = []\<rparr>"

datatype exn = MissingFocus

definition isSkipped :: "skipElement list \<Rightarrow> element \<Rightarrow> bool" where
  "isSkipped skips el =
     list_ex (\<lambda>skipElement.
        case skipElement of
          SkipRef current \<Rightarrow> current = Some el
        | SkipElement e \<Rightarrow> e = el) skips"

text \<open>The candidate list: the local \<open>elements\<close> of \<open>focusIn\<close> after the skip filter.\<close>

definition focusIn_elements ::
    "platform \<Rightarrow> container \<Rightarrow> nat \<Rightarrow> focusIn_options \<Rightarrow> element list" where
  "focusIn_elements p cont focus opts =
     (let elements =
        (case cont of
           Elements xs \<Rightarrow> if sorted_opt opts then sortByDomNode p xs else xs
         | Container c \<Rightarrow>
             if focus AND Focus_AutoFocus \<noteq> 0
             then getAutoFocusableElements p (Some c)
             else getFocusableElements p (Some c))
      in if length (skipElements opts) > 0 \<and> length elements > 1
         then filter (\<lambda>el. \<not> isSkipped (skipElements opts) el) elements
         else elements)"

definition focusIn_direction :: "nat \<Rightarrow> exn + Direction" where
  "focusIn_direction focus =
     (if focus AND (Focus_First OR Focus_Next) \<noteq> 0 then Inr Direction_Next
      else if focus AND (Focus_Previous OR Focus_Last) \<noteq> 0 then Inr Direction_Previous
      else Inl MissingFocus)"

text \<open>\<open>elements.indexOf(relativeTo)\<close> where \<open>relativeTo\<close> may be \<open>null\<close>, which no element is.\<close>

definition indexOfRelative :: "element list \<Rightarrow> element option \<Rightarrow> int" where
  "indexOfRelative elements rel = (case rel of None \<Rightarrow> - 1 | Some r \<Rightarrow> indexOf elements r)"

text \<open>\<open>relativeTo ?? ownerDocument.activeElement\<close>.\<close>

definition focusIn_relativeTo :: "focusIn_options \<Rightarrow> focus_state \<Rightarrow> element option" where
  "focusIn_relativeTo opts st =
     (case relativeTo opts of Some r \<Rightarrow> Some r | None \<Rightarrow> activeElement st)"

definition focusIn_startIndex :: "nat \<Rightarrow> element list \<Rightarrow> element option \<Rightarrow> exn + int" where
  "focusIn_startIndex focus elements rel =
     (if focus AND Focus_First \<noteq> 0 then Inr 0
      else if focus AND Focus_Previous \<noteq> 0 then Inr (max 0 (indexOfRelative elements rel) - 1)
      else if focus AND Focus_Next \<noteq> 0 then Inr (max 0 (indexOfRelative elements rel) + 1)
      else if focus AND Focus_Last \<noteq> 0 then Inr (int (length elements) - 1)
      else Inl MissingFocus)"

text \<open>
  The \<open>do ... while (next !== ownerDocument.activeElement)\<close> loop. It returns early with
  \<open>Error\<close>, \<open>Underflow\<close> or \<open>Overflow\<close>, or leaves with the element \<open>next\<close> that holds
  focus. \<open>undefined\<close> is not identical to any active element, nor to \<open>null\<close>.
\<close>

definition isActive :: "element option \<Rightarrow> focus_state \<Rightarrow> bool" where
  "isActive next st = (case next of None \<Rightarrow> False | Some e \<Rightarrow> activeElement st = Some e)"

function focusIn_loop ::
    "platform \<Rightarrow> nat \<Rightarrow> element list \<Rightarrow> int \<Rightarrow> Direction \<Rightarrow> int \<Rightarrow> focus_state
     \<Rightarrow> FocusResult \<times> element option \<times> focus_state" where
  "focusIn_loop p focus elements startIndex direction offset st =
     (let total = int (length elements)
      in if offset \<ge> total \<or> offset + total \<le> 0 then (Error, None, st)
         else
           let wrap = (focus AND Focus_WrapAround \<noteq> 0);
               nextIdx = startIndex + offset
           in if \<not> wrap \<and> nextIdx < 0 then (Underflow, None, st)
              else if \<not> wrap \<and> nextIdx \<ge> total then (Overflow, None, st)
              else
                let next = js_index elements
                             (if wrap then js_rem (nextIdx + total) total else Some nextIdx);
                    st' = (case next of
                             None \<Rightarrow> st
                           | Some e \<Rightarrow> focus_call p e (focus AND Focus_NoScroll \<noteq> 0) st)
                in if \<not> isActive next st'
                   then focusIn_loop p focus elements startIndex direction
                          (offset + direction_value direction) st'
                   else (Success, next, st'))"
  by pat_completeness auto
termination
  by (relation "measure (\<lambda>(p, focus, elements, startIndex, direction, offset, st).
        nat (case direction of
               Direction_Next \<Rightarrow> int (length elements) - offset
             | Direction_Previous \<Rightarrow> int (length elements) + offset))")
     (auto split: Direction.splits)

declare focusIn_loop.simps [simp del]

text \<open>
  Names for the parts of one pass through the loop: the element \<open>next\<close> at an offset,
  the state after \<open>next?.focus(focusOptions)\<close>, and the number of passes left.
\<close>

definition loop_next :: "nat \<Rightarrow> element list \<Rightarrow> int \<Rightarrow> int \<Rightarrow> element option" where
  "loop_next focus elements startIndex offset =
     js_index elements
       (if focus AND Focus_WrapAround \<noteq> 0
        then js_rem (startIndex + offset + int (length elements)) (int (length elements))
        else Some (startIndex + offset))"

definition loop_focus :: "platform \<Rightarrow> nat \<Rightarrow> element option \<Rightarrow> focus_state \<Rightarrow> focus_state" where
  "loop_focus p focus next st =
     (case next of None \<Rightarrow> st | Some e \<Rightarrow> focus_call p e (focus AND Focus_NoScroll \<noteq> 0) st)"

definition loop_measure :: "element list \<Rightarrow> Direction \<Rightarrow> int \<Rightarrow> nat" where
  "loop_measure elements direction offset =
     nat (case direction of
            Direction_Next \<Rightarrow> int (length elements) - offset
          | Direction_Previous \<Rightarrow> int (length elements) + offset)"

definition focusIn ::
    "platform \<Rightarrow> container \<Rightarrow> nat \<Rightarrow> focusIn_options \<Rightarrow> focus_state
     \<Rightarrow> exn + (FocusResult \<times> focus_state)" where
  "focusIn p cont focus opts st =
     (let elements = focusIn_elements p cont focus opts;
          rel = focusIn_relativeTo opts st
      in case focusIn_direction focus of
           Inl e \<Rightarrow> Inl e
         | Inr direction \<Rightarrow>
             (case focusIn_startIndex focus elements rel of
                Inl e \<Rightarrow> Inl e
              | Inr startIndex \<Rightarrow>
                  (case focusIn_loop p focus elements startIndex direction 0 st of
                     (Success, next, st') \<Rightarrow>
                       Inr (Success,
                            if focus AND (Focus_Next OR Focus_Previous) \<noteq> 0
                               \<and> isSelectableElement next
                            then select_call (the next) st' else st')
                   | (r, next, st') \<Rightarrow> Inr (r, st'))))"

text \<open>
  Calling \<open>focusIn\<close> again and again with the same arguments, each call starting from the
  state the previous one left: \<open>Some\<close> of the final state when every call returned
  \<open>Success\<close>, \<open>None\<close> as soon as one did not.
\<close>

fun focusIn_repeated ::
    "nat \<Rightarrow> platform \<Rightarrow> container \<Rightarrow> nat \<Rightarrow> focusIn_options \<Rightarrow> focus_state
     \<Rightarrow> focus_state option" where
  "focusIn_repeated 0 p cont focus opts st = Some st"
| "focusIn_repeated (Suc k) p cont focus opts st =
     (case focusIn p cont focus opts st of
        Inr (Success, st') \<Rightarrow> focusIn_repeated k p cont focus opts st'
      | _ \<Rightarrow> None)"

text \<open>How many of \<open>First\<close>, \<open>Previous\<close>, \<open>Next\<close>, \<open>Last\<close> a directive contains.\<close>

definition movementFlags :: "nat \<Rightarrow> nat" where
  "movementFlags focus =
     length (filter (\<lambda>flag. focus AND flag \<noteq> 0)
               [Focus_First, Focus_Previous, Focus_Next, Focus_Last])"

section \<open>focus-management (Vue)\<close>

text \<open>
  The Vue module repeats the React one. Its \<open>Focus\<close> enum stops at \<open>NoScroll\<close>, a
  container is always resolved by \<open>getFocusableElements\<close>, and \<open>skipElements\<close> holds
  elements only. Its selector, its comparators and its computation of the direction and
  of the start index are the same text as in the React module.
\<close>

definition vue_getFocusableElements :: "platform \<Rightarrow> element option \<Rightarrow> element list" where
  "vue_getFocusableElements p container =
     (case container of
        None \<Rightarrow> []
      | Some c \<Rightarrow>
          js_sort compareTabIndex (querySelectorAll p c (focusableSelector (nodeEnvTest p))))"

definition vue_sortByDomNode :: "platform \<Rightarrow> element list \<Rightarrow> element list" where
  "vue_sortByDomNode p nodes = js_sort (compareDomNode p) nodes"

record vue_focusIn_options =
  vue_sorted :: bool
  vue_relativeTo :: "element option"
  vue_skipElements :: "element list"

definition vue_focusIn_elements ::
    "platform \<Rightarrow> container \<Rightarrow> nat \<Rightarrow> vue_focusIn_options \<Rightarrow> element list" where
  "vue_focusIn_elements p cont focus opts =
     (let elements =
        (case cont of
           Elements xs \<Rightarrow> if vue_sorted opts then vue_sortByDomNode p xs else xs
         | Container c \<Rightarrow> vue_getFocusableElements p (Some c))
      in if length (vue_skipElements opts) > 0 \<and> length elements > 1
         then filter (\<lambda>x. \<not> x \<in> set (vue_skipElements opts)) elements
         else elements)"

function vue_focusIn_loop ::
    "platform \<Rightarrow> nat \<Rightarrow> element list \<Rightarrow> int \<Rightarrow> Direction \<Rightarrow> int \<Rightarrow> focus_state
     \<Rightarrow> FocusResult \<times> element option \<times> focus_state" where
  "vue_focusIn_loop p focus elements startIndex direction offset st =
     (let total = int (length elements)
      in if offset \<ge> total \<or> offset + total \<le> 0 then (Error, None, st)
         else
           let wrap = (focus AND Focus_WrapAround \<noteq> 0);
               nextIdx = startIndex + offset
           in if \<not> wrap \<and> nextIdx < 0 then (Underflow, None, st)
              else if \<not> wrap \<and> nextIdx \<ge> total then (Overflow, None, st)
              else
                let next = js_index elements
                             (if wrap then js_rem (nextIdx + total) total else Some nextIdx);
                    st' = (case next of
                             None \<Rightarrow> st
                           | Some e \<Rightarrow> focus_call p e (focus AND Focus_NoScroll \<noteq> 0) st)
                in if \<not> isActive next st'
                   then vue_focusIn_loop p focus elements startIndex direction
                          (offset + direction_value direction) st'
                   else (Success, next, st'))"
  by pat_completeness auto
termination
  by (relation "measure (\<lambda>(p, focus, elements, startIndex, direction, offset, st).
        nat (case direction of
               Direction_Next \<Rightarrow> int (length elements) - offset
             | Direction_Previous \<Rightarrow> int (length elements) + offset))")
     (auto split: Direction.splits)

declare vue_focusIn_loop.simps [simp del]

definition vue_focusIn ::
    "platform \<Rightarrow> container \<Rightarrow> nat \<Rightarrow> vue_focusIn_options \<Rightarrow> focus_state
     \<Rightarrow> exn + (FocusResult \<times> focus_state)" where
  "vue_focusIn p cont focus opts st =
     (let elements = vue_focusIn_elements p cont focus opts;
          rel = (case vue_relativeTo opts of Some r \<Rightarrow> Some r | None \<Rightarrow> activeElement st)
      in case focusIn_direction focus of
           Inl e \<Rightarrow> Inl e
         | Inr direction \<Rightarrow>
             (case focusIn_startIndex focus elements rel of
                Inl e \<Rightarrow> Inl e
              | Inr startIndex \<Rightarrow>
                  (case vue_focusIn_loop p focus elements startIndex direction 0 st of
                     (Success, next, st') \<Rightarrow>
                       Inr (Success,
                            if focus AND (Focus_Next OR Focus_Previous) \<noteq> 0
                               \<and> isSelectableElement next
                            then select_call (the next) st' else st')
                   | (r, next, st') \<Rightarrow> Inr (r, st'))))"

text \<open>The React options that say what given Vue options say: the skipped elements as plain elements.\<close>

definition react_options :: "vue_focusIn_options \<Rightarrow> focusIn_options" where
  "react_options opts =
     \<lparr>sorted_opt = vue_sorted opts, relativeTo = vue_relativeTo opts,
      skipElements = map SkipElement (vue_skipElements opts)\<rparr>"

section \<open>use-is-top-layer\<close>

text \<open>
  The reducers of a scope's store, on the array of instance ids: \<open>ADD\<close> appends an id that
  is not there yet, \<open>REMOVE\<close> splices the first occurrence out.
\<close>

definition ADD :: "string \<Rightarrow> string list \<Rightarrow> string list" where
  "ADD ident this = (if ident \<in> set this then this else this @ [ident])"

definition REMOVE :: "string \<Rightarrow> string list \<Rightarrow> string list" where
  "REMOVE ident this =
     (let idx = indexOf this ident
      in if idx = - 1 then this else take (nat idx) this @ drop (nat idx + 1) this)"

datatype action = Add string | Remove string

text \<open>
  Modelled from the spec: \<open>createStore\<close> and \<open>DefaultMap\<close> are not under src/. The
  registry maintains, per scope string, an ordered sequence of instance identifiers, empty
  for a scope never used; dispatching an action replaces the sequence of that scope by
  what the reducer returns and leaves every other scope alone.
\<close>

type_synonym hierarchyStores = "string \<Rightarrow> string list"

definition initialStores :: hierarchyStores where
  "initialStores = (\<lambda>scope. [])"

definition dispatch :: "string \<Rightarrow> action \<Rightarrow> hierarchyStores \<Rightarrow> hierarchyStores" where
  "dispatch scope act stores =
     stores(scope := (case act of
                        Add ident \<Rightarrow> ADD ident (stores scope)
                      | Remove ident \<Rightarrow> REMOVE ident (stores scope)))"

fun dispatchAll :: "(string \<times> action) list \<Rightarrow> hierarchyStores \<Rightarrow> hierarchyStores" where
  "dispatchAll [] stores = stores"
| "dispatchAll ((scope, act) # rest) stores = dispatchAll rest (dispatch scope act stores)"

text \<open>
  What \<open>useIsTopLayer(enabled, scope)\<close> returns for the instance \<open>ident\<close> when the scope's
  sequence is \<open>hierarchy\<close>, and what its effect and the effect's cleanup dispatch.
\<close>

definition useIsTopLayer :: "bool \<Rightarrow> string \<Rightarrow> string list \<Rightarrow> bool" where
  "useIsTopLayer enabled ident hierarchy =
     (if \<not> enabled then False
      else
        let idx = indexOf hierarchy ident;
            hierarchyLength = int (length hierarchy);
            idx' = (if idx = - 1 then hierarchyLength else idx);
            hierarchyLength' = (if idx = - 1 then hierarchyLength + 1 else hierarchyLength)
        in idx' = hierarchyLength' - 1)"

definition useIsTopLayer_effect ::
    "bool \<Rightarrow> string \<Rightarrow> string \<Rightarrow> hierarchyStores \<Rightarrow> hierarchyStores" where
  "useIsTopLayer_effect enabled scope ident stores =
     (if \<not> enabled then stores else dispatch scope (Add ident) stores)"

definition useIsTopLayer_cleanup ::
    "bool \<Rightarrow> string \<Rightarrow> string \<Rightarrow> hierarchyStores \<Rightarrow> hierarchyStores" where
  "useIsTopLayer_cleanup enabled scope ident stores =
     (if \<not> enabled then stores else dispatch scope (Remove ident) stores)"

section \<open>focus-trap: initial focus\<close>

definition FocusTrapFeatures_None :: nat where "FocusTrapFeatures_None = 0"
definition FocusTrapFeatures_InitialFocus :: nat where "FocusTrapFeatures_InitialFocus = 2 ^ 0"
definition FocusTrapFeatures_TabLock :: nat where "FocusTrapFeatures_TabLock = 2 ^ 1"
definition FocusTrapFeatures_FocusLock :: nat where "FocusTrapFeatures_FocusLock = 2 ^ 2"
definition FocusTrapFeatures_RestoreFocus :: nat where "FocusTrapFeatures_RestoreFocus = 2 ^ 3"
definition FocusTrapFeatures_AutoFocus :: nat where "FocusTrapFeatures_AutoFocus = 2 ^ 4"

text \<open>
  The trap's own state beside the document's: the ref \<open>previousActiveElement\<close> and the
  console warnings emitted.
\<close>

record trap_state =
  doc :: focus_state
  previousActiveElement :: "element option"
  warnings :: "string list"

text \<open>
  The callback \<open>useInitialFocus\<close> hands to \<open>microTask\<close>. \<open>initialFocus\<close> and
  \<open>initialFocusFallback\<close> are the \<open>current\<close> values of the two refs, \<open>None\<close> when a ref
  is missing or empty. A \<open>return\<close> after a successful \<open>focusIn\<close> leaves
  \<open>previousActiveElement\<close> alone.
\<close>

definition initialFocus_task ::
    "platform \<Rightarrow> nat \<Rightarrow> element \<Rightarrow> element option \<Rightarrow> element option \<Rightarrow> bool \<Rightarrow> trap_state
     \<Rightarrow> exn + trap_state" where
  "initialFocus_task p features containerElement initialFocus initialFocusFallback mounted ts =
     (if \<not> mounted then Inr ts
      else
        let active = activeElement (doc ts)
        in if initialFocus \<noteq> None \<and> initialFocus = active
             then Inr (ts\<lparr>previousActiveElement := active\<rparr>)
           else if initialFocus = None
                   \<and> (case active of None \<Rightarrow> False | Some a \<Rightarrow> contains containerElement a)
             then Inr (ts\<lparr>previousActiveElement := active\<rparr>)
           else if initialFocus \<noteq> None
             then (let d = focusElement p initialFocus (doc ts)
                   in Inr (ts\<lparr>doc := d, previousActiveElement := activeElement d\<rparr>))
           else
             (case (if features AND FocusTrapFeatures_AutoFocus \<noteq> 0
                    then focusIn p (Container containerElement) (Focus_First OR Focus_AutoFocus)
                           default_options (doc ts)
                    else focusIn p (Container containerElement) Focus_First
                           default_options (doc ts)) of
                Inl e \<Rightarrow> Inl e
              | Inr (r, d) \<Rightarrow>
                  if r \<noteq> Error then Inr (ts\<lparr>doc := d\<rparr>)
                  else
                    let d' = focusElement p initialFocusFallback d
                    in if initialFocusFallback \<noteq> None
                          \<and> activeElement d' = initialFocusFallback
                       then Inr (ts\<lparr>doc := d'\<rparr>)
                       else Inr (ts\<lparr>doc := d',
                                    previousActiveElement := activeElement d',
                                    warnings := warnings ts @
                                      [''There are no focusable elements inside the <FocusTrap />'']\<rparr>)))"

text \<open>
  The callback of \<open>useWatch\<close> around it; \<open>enabled\<close> is what
  \<open>useIsTopLayer(Boolean(features & InitialFocus), 'focus-trap#initial-focus')\<close> returned,
  and the microtask runs next.
\<close>

definition useInitialFocus ::
    "platform \<Rightarrow> nat \<Rightarrow> bool \<Rightarrow> element option \<Rightarrow> element option \<Rightarrow> element option \<Rightarrow> bool
     \<Rightarrow> trap_state \<Rightarrow> exn + trap_state" where
  "useInitialFocus p features enabled container initialFocus initialFocusFallback mounted ts =
     (if features = FocusTrapFeatures_None then Inr ts
      else if \<not> enabled
        then Inr (ts\<lparr>doc := focusElement p initialFocusFallback (doc ts)\<rparr>)
      else (case container of
              None \<Rightarrow> Inr ts
            | Some containerElement \<Rightarrow>
                initialFocus_task p features containerElement initialFocus
                  initialFocusFallback mounted ts))"

section \<open>use-outside-click\<close>

text \<open>
  The event as \<open>handleOutsideClick\<close> reads and changes it; \<open>preventDefault()\<close> sets
  \<open>defaultPrevented\<close> of a cancelable event and does nothing to another one. The
  containers arrive as one element-or-null or as a collection of them; a function is called
  first and its result taken.
\<close>

record event =
  defaultPrevented :: bool
  cancelable :: bool
  composed :: bool
  composedPath :: "element list"

definition preventDefault :: "event \<Rightarrow> event" where
  "preventDefault ev = (if cancelable ev then ev\<lparr>defaultPrevented := True\<rparr> else ev)"

datatype containerInput = OneContainer "element option" | ContainerCollection "element option list"

definition resolveContainers :: "containerInput \<Rightarrow> element option list" where
  "resolveContainers containers =
     (case containers of
        ContainerCollection cs \<Rightarrow> cs
      | OneContainer c \<Rightarrow> [c])"

definition getRootNode :: "element \<Rightarrow> element" where
  "getRootNode e = last (inclusiveAncestors e)"

definition isConnected :: "platform \<Rightarrow> element \<Rightarrow> bool" where
  "isConnected p e = (e \<in> set (documentElements p))"

text \<open>The \<open>for\<close> loop over the containers: \<open>True\<close> when it returns from the handler.\<close>

fun insideContainers :: "event \<Rightarrow> element \<Rightarrow> element option list \<Rightarrow> bool" where
  "insideContainers ev target [] = False"
| "insideContainers ev target (None # rest) = insideContainers ev target rest"
| "insideContainers ev target (Some container # rest) =
     (if contains container target then True
      else if composed ev \<and> container \<in> set (composedPath ev) then True
      else insideContainers ev target rest)"

text \<open>
  \<open>handleOutsideClick\<close> returns the event as the callback sees it and the target the
  callback is called with, \<open>None\<close> when the callback is not called.
\<close>

definition handleOutsideClick ::
    "platform \<Rightarrow> containerInput \<Rightarrow> event \<Rightarrow> element option \<Rightarrow> event \<times> element option" where
  "handleOutsideClick p containers ev resolvedTarget =
     (if defaultPrevented ev then (ev, None)
      else (case resolvedTarget of
              None \<Rightarrow> (ev, None)
            | Some target \<Rightarrow>
                if \<not> contains (getRootNode target) target then (ev, None)
                else if \<not> isConnected p target then (ev, None)
                else if insideContainers ev target (resolveContainers containers) then (ev, None)
                else
                  (if \<not> isFocusableElement p target Loose \<and> tabIndex target \<noteq> - 1
                   then preventDefault ev else ev,
                   Some target)))"

section \<open>A small document\<close>

text \<open>
  The document of the specification's scenario, to run the definitions on: a \<open>div\<close> with
  the buttons a, b, c (disabled) and d, where a disabled button refuses focus.
\<close>

definition mkElement :: "nat \<Rightarrow> string \<Rightarrow> element option \<Rightarrow> element" where
  "mkElement n tag parent =
     Element \<lparr>nodeId = n, tagName = tag, contentEditable = None, tabindexAttr = None,
              hasHref = False, disabled = False, dataAutofocus = False,
              styleDisplayNone = False, detailsSummary = False\<rparr> parent"

definition el_root :: element where "el_root = mkElement 0 ''div'' None"
definition el_a :: element where "el_a = mkElement 1 ''button'' (Some el_root)"
definition el_b :: element where "el_b = mkElement 2 ''button'' (Some el_root)"
definition el_c :: element where
  "el_c = Element ((attrs (mkElement 3 ''button'' None))\<lparr>disabled := True\<rparr>) (Some el_root)"
definition el_d :: element where "el_d = mkElement 4 ''button'' (Some el_root)"

definition scenario :: platform where
  "scenario = \<lparr>nodeEnvTest = False, documentElements = [el_root, el_a, el_b, el_c, el_d],
               documentBody = None, focusAccepted = (\<lambda>e. \<not> disabled (attrs e))\<rparr>"

text \<open>
  More elements for the same \<open>div\<close>: a button marked \<open>data-autofocus\<close>, a \<open>div\<close> with
  \<open>tabindex="0"\<close>, an input with \<open>tabindex="3"\<close>, a plain \<open>span\<close>, a \<open>div\<close> with
  \<open>tabindex="-1"\<close> and a \<open>div\<close> with \<open>tabindex="0"\<close> styled \<open>display: none\<close>; a
  cancelable click event that nothing has handled yet; and the document that holds a chosen
  list of children.
\<close>

definition el_auto :: element where
  "el_auto = Element ((attrs (mkElement 5 ''button'' None))\<lparr>dataAutofocus := True\<rparr>)
               (Some el_root)"

definition el_tab0 :: element where
  "el_tab0 = Element ((attrs (mkElement 6 ''div'' None))\<lparr>tabindexAttr := Some 0\<rparr>)
               (Some el_root)"

definition el_tab3 :: element where
  "el_tab3 = Element ((attrs (mkElement 7 ''input'' None))\<lparr>tabindexAttr := Some 3\<rparr>)
               (Some el_root)"

definition el_span :: element where "el_span = mkElement 8 ''span'' (Some el_root)"

definition el_neg :: element where
  "el_neg = Element ((attrs (mkElement 9 ''div'' None))\<lparr>tabindexAttr := Some (- 1)\<rparr>)
              (Some el_root)"

definition el_hidden :: element where
  "el_hidden = Element ((attrs (mkElement 10 ''div'' None))
                  \<lparr>tabindexAttr := Some 0, styleDisplayNone := True\<rparr>) (Some el_root)"

definition clickEvent :: event where
  "clickEvent = \<lparr>defaultPrevented = False, cancelable = True, composed = False,
                 composedPath = []\<rparr>"

definition scenario_with :: "element list \<Rightarrow> platform" where
  "scenario_with children = scenario\<lparr>documentElements := el_root # children\<rparr>"

definition focusOn :: "element option \<Rightarrow> focus_state" where
  "focusOn e = \<lparr>activeElement = e, focusCalls = [], selectCalls = []\<rparr>"

definition trapOn :: "element option \<Rightarrow> trap_state" where
  "trapOn e = \<lparr>doc = focusOn e, previousActiveElement = None, warnings = []\<rparr>"

section \<open>Properties of the focus mover\<close>

lemma and_or_eq_0: "(x::nat) AND (a OR b) = 0 \<longleftrightarrow> x AND a = 0 \<and> x AND b = 0"
  by (auto simp: bit_eq_iff bit_and_iff bit_or_iff)

lemma focusIn_direction_missing:
  "focusIn_direction focus = Inl MissingFocus \<longleftrightarrow>
     focus AND Focus_First = 0 \<and> focus AND Focus_Previous = 0 \<and>
     focus AND Focus_Next = 0 \<and> focus AND Focus_Last = 0"
  by (auto simp: focusIn_direction_def and_or_eq_0)

lemma focusIn_startIndex_missing:
  "focusIn_startIndex focus els rel = Inl MissingFocus \<longleftrightarrow>
     focus AND Focus_First = 0 \<and> focus AND Focus_Previous = 0 \<and>
     focus AND Focus_Next = 0 \<and> focus AND Focus_Last = 0"
  by (auto simp: focusIn_startIndex_def)

lemma exn_only: "(e::exn) = MissingFocus"
  by (cases e) simp

lemma focusIn_throws_iff:
  "focusIn p cont focus opts st = Inl MissingFocus \<longleftrightarrow>
     focus AND Focus_First = 0 \<and> focus AND Focus_Previous = 0 \<and>
     focus AND Focus_Next = 0 \<and> focus AND Focus_Last = 0"
proof (cases "focusIn_direction focus")
  case (Inl e)
  then have "focusIn p cont focus opts st = Inl MissingFocus"
    by (simp add: focusIn_def Let_def exn_only[of e])
  moreover from Inl have "focusIn_direction focus = Inl MissingFocus"
    by (simp add: exn_only[of e])
  ultimately show ?thesis using focusIn_direction_missing[of focus] by simp
next
  case (Inr d)
  then have nm: "\<not> (focus AND Focus_First = 0 \<and> focus AND Focus_Previous = 0 \<and>
     focus AND Focus_Next = 0 \<and> focus AND Focus_Last = 0)"
    using focusIn_direction_missing[of focus] by simp
  then obtain s where s: "focusIn_startIndex focus (focusIn_elements p cont focus opts)
           (focusIn_relativeTo opts st) = Inr s"
    using focusIn_startIndex_missing[of focus "focusIn_elements p cont focus opts"
            "focusIn_relativeTo opts st"] exn_only
    by (cases "focusIn_startIndex focus (focusIn_elements p cont focus opts)
           (focusIn_relativeTo opts st)") auto
  obtain r nxt st1 where
    "focusIn_loop p focus (focusIn_elements p cont focus opts) s d 0 st = (r, nxt, st1)"
    by (cases "focusIn_loop p focus (focusIn_elements p cont focus opts) s d 0 st") auto
  with Inr s have "focusIn p cont focus opts st \<noteq> Inl MissingFocus"
    by (cases r) (simp_all add: focusIn_def Let_def)
  with nm show ?thesis by simp
qed

lemma focusIn_loop_empty:
  "focusIn_loop p focus [] startIndex direction 0 st = (Error, None, st)"
  by (simp add: focusIn_loop.simps)

lemma indexOf_ge: "- 1 \<le> indexOf xs x"
  by (induction xs) (auto simp: Let_def)

lemma indexOf_notin: "x \<notin> set xs \<Longrightarrow> indexOf xs x = - 1"
  by (induction xs) (auto simp: Let_def)

lemma indexOf_in: "x \<in> set xs \<Longrightarrow> 0 \<le> indexOf xs x \<and> indexOf xs x < int (length xs)"
  by (induction xs) (auto simp: Let_def)

lemma indexOf_hd: "xs \<noteq> [] \<Longrightarrow> indexOf xs (hd xs) = 0"
  by (cases xs) auto

lemma indexOf_append_last: "x \<notin> set xs \<Longrightarrow> indexOf (xs @ [x]) x = int (length xs)"
  by (induction xs) (auto simp: Let_def)

lemma indexOf_last:
  assumes "xs \<noteq> []" "last xs \<notin> set (butlast xs)"
  shows "indexOf xs (last xs) = int (length xs) - 1"
proof -
  have "indexOf (butlast xs @ [last xs]) (last xs) = int (length (butlast xs))"
    using assms(2) by (rule indexOf_append_last)
  moreover from assms(1) have "butlast xs @ [last xs] = xs" "length xs \<noteq> 0" by simp_all
  ultimately show ?thesis by (simp add: of_nat_diff)
qed

lemma indexOf_nth: "distinct xs \<Longrightarrow> i < length xs \<Longrightarrow> indexOf xs (xs ! i) = int i"
proof (induction xs arbitrary: i)
  case Nil
  then show ?case by simp
next
  case (Cons y ys)
  show ?case
  proof (cases i)
    case 0
    then show ?thesis by simp
  next
    case (Suc j)
    with Cons.prems have j: "j < length ys" "distinct ys" "ys ! j \<noteq> y" by auto
    with Cons.IH[of j] Suc show ?thesis by (auto simp: Let_def)
  qed
qed

lemma focusIn_loop_overflow:
  assumes "elements \<noteq> []" "focus AND Focus_WrapAround = 0"
    "startIndex \<ge> int (length elements)"
  shows "focusIn_loop p focus elements startIndex direction 0 st = (Overflow, None, st)"
  using assms by (simp add: focusIn_loop.simps Let_def)

lemma focusIn_loop_underflow:
  assumes "elements \<noteq> []" "focus AND Focus_WrapAround = 0" "startIndex < 0"
  shows "focusIn_loop p focus elements startIndex direction 0 st = (Underflow, None, st)"
  using assms by (simp add: focusIn_loop.simps Let_def)

lemma focus_call_active:
  "activeElement (focus_call p e b st) = (if focusAccepted p e then Some e else activeElement st)"
  by (simp add: focus_call_def)

lemma js_index_Some: "js_index xs i = Some e \<Longrightarrow> e \<in> set xs"
  by (auto simp: js_index_def split: option.splits if_splits)

lemma focusIn_loop_unfold:
  "focusIn_loop p focus elements startIndex direction offset st =
     (if offset \<ge> int (length elements) \<or> offset + int (length elements) \<le> 0
        then (Error, None, st)
      else if focus AND Focus_WrapAround = 0 \<and> startIndex + offset < 0
        then (Underflow, None, st)
      else if focus AND Focus_WrapAround = 0 \<and> startIndex + offset \<ge> int (length elements)
        then (Overflow, None, st)
      else if isActive (loop_next focus elements startIndex offset)
                (loop_focus p focus (loop_next focus elements startIndex offset) st)
        then (Success, loop_next focus elements startIndex offset,
              loop_focus p focus (loop_next focus elements startIndex offset) st)
      else focusIn_loop p focus elements startIndex direction
             (offset + direction_value direction)
             (loop_focus p focus (loop_next focus elements startIndex offset) st))"
  by (subst focusIn_loop.simps) (simp add: Let_def loop_next_def loop_focus_def)

lemma loop_measure_less:
  "\<not> (offset \<ge> int (length elements) \<or> offset + int (length elements) \<le> 0)
   \<Longrightarrow> loop_measure elements direction (offset + direction_value direction)
       < loop_measure elements direction offset"
  by (cases direction) (auto simp: loop_measure_def)

lemma loop_next_in: "loop_next focus elements startIndex offset = Some e \<Longrightarrow> e \<in> set elements"
  unfolding loop_next_def by (rule js_index_Some)

lemma focusIn_loop_success:
  "focusIn_loop p focus elements startIndex direction offset st = (Success, next, st')
   \<Longrightarrow> \<exists>e \<in> set elements. next = Some e \<and> activeElement st' = Some e"
proof (induction "loop_measure elements direction offset" arbitrary: offset st rule: less_induct)
  case less
  let ?n = "loop_next focus elements startIndex offset"
  let ?s = "loop_focus p focus ?n st"
  from less.prems have g: "\<not> (offset \<ge> int (length elements) \<or> offset + int (length elements) \<le> 0)"
    by (subst (asm) focusIn_loop_unfold) (auto split: if_splits)
  show ?case
  proof (cases "isActive ?n ?s")
    case True
    with less.prems have "next = ?n" "st' = ?s"
      by (subst (asm) focusIn_loop_unfold, auto split: if_splits)+
    with True show ?thesis
      by (auto simp: isActive_def split: option.splits dest: loop_next_in)
  next
    case False
    with less.prems have
      "focusIn_loop p focus elements startIndex direction (offset + direction_value direction) ?s
        = (Success, next, st')"
      by (subst (asm) focusIn_loop_unfold) (auto split: if_splits)
    with less.hyps[OF loop_measure_less[OF g]] show ?thesis by blast
  qed
qed

lemma focusIn_run:
  assumes "focusIn_direction focus = Inr d"
    and "focusIn_startIndex focus (focusIn_elements p cont focus opts)
           (focusIn_relativeTo opts st) = Inr s"
    and "focusIn_loop p focus (focusIn_elements p cont focus opts) s d 0 st = (r, next, st')"
  shows "focusIn p cont focus opts st =
           Inr (r, if r = Success \<and> focus AND (Focus_Next OR Focus_Previous) \<noteq> 0
                        \<and> isSelectableElement next
                   then select_call (the next) st' else st')"
  using assms by (cases r) (simp_all add: focusIn_def Let_def)

lemma focusIn_direction_valid:
  assumes "focus AND Focus_First \<noteq> 0 \<or> focus AND Focus_Previous \<noteq> 0
           \<or> focus AND Focus_Next \<noteq> 0 \<or> focus AND Focus_Last \<noteq> 0"
  shows "\<exists>d. focusIn_direction focus = Inr d"
  using assms focusIn_direction_missing[of focus] exn_only
  by (cases "focusIn_direction focus") auto

lemma focusIn_startIndex_valid:
  assumes "focus AND Focus_First \<noteq> 0 \<or> focus AND Focus_Previous \<noteq> 0
           \<or> focus AND Focus_Next \<noteq> 0 \<or> focus AND Focus_Last \<noteq> 0"
  shows "\<exists>s. focusIn_startIndex focus els rel = Inr s"
  using assms focusIn_startIndex_missing[of focus els rel] exn_only
  by (cases "focusIn_startIndex focus els rel") auto

lemma js_sort_Nil: "js_sort cmp [] = []"
  by (simp add: js_sort_def)

lemma js_rem_nonneg: "0 \<le> a \<Longrightarrow> 0 < b \<Longrightarrow> js_rem a b = Some (a mod b)"
  by (simp add: js_rem_def sgn_if)

lemma succ_mod_less: "i < n \<Longrightarrow> (i + 1) mod n < (n::nat)"
  using mod_less_divisor[of n "i + 1"] by linarith

lemma loop_next_wrap:
  assumes "focus AND Focus_WrapAround \<noteq> 0" "i < length elements"
  shows "loop_next focus elements (int i + 1) 0 = Some (elements ! ((i + 1) mod length elements))"
proof -
  let ?n = "length elements"
  from assms(2) have n: "0 < int ?n" by linarith
  have "js_rem (int i + 1 + 0 + int ?n) (int ?n) = Some ((int i + 1 + 0 + int ?n) mod int ?n)"
    using n by (intro js_rem_nonneg) simp_all
  also have "(int i + 1 + 0 + int ?n) mod int ?n = int ((i + 1) mod ?n)"
    by (simp add: zmod_int add.commute)
  finally show ?thesis
    using assms succ_mod_less[OF assms(2)] by (simp add: loop_next_def js_index_def)
qed

lemma focusIn_loop_wrap_step:
  assumes wrap: "focus AND Focus_WrapAround \<noteq> 0" and i: "i < length elements"
    and acc: "\<forall>e \<in> set elements. focusAccepted p e"
  shows "focusIn_loop p focus elements (int i + 1) d 0 st =
           (Success, Some (elements ! ((i + 1) mod length elements)),
            focus_call p (elements ! ((i + 1) mod length elements))
              (focus AND Focus_NoScroll \<noteq> 0) st)"
proof -
  let ?e = "elements ! ((i + 1) mod length elements)"
  from i have "?e \<in> set elements" by (intro nth_mem succ_mod_less)
  with acc have "focusAccepted p ?e" by blast
  then have act: "isActive (Some ?e) (loop_focus p focus (Some ?e) st)"
    by (simp add: isActive_def loop_focus_def focus_call_def)
  from i have "\<not> (0 \<ge> int (length elements) \<or> 0 + int (length elements) \<le> 0)" by linarith
  with wrap act show ?thesis
    by (subst focusIn_loop_unfold) (simp add: loop_next_wrap[OF wrap i] loop_focus_def)
qed

lemma focusIn_wrap_next_step:
  assumes dist: "distinct (focusIn_elements p cont focus opts)"
    and acc: "\<forall>e \<in> set (focusIn_elements p cont focus opts). focusAccepted p e"
    and nx: "focus AND Focus_Next \<noteq> 0" and wrap: "focus AND Focus_WrapAround \<noteq> 0"
    and nf: "focus AND Focus_First = 0" and np: "focus AND Focus_Previous = 0"
    and i: "i < length (focusIn_elements p cont focus opts)"
    and rt: "focusIn_relativeTo opts st = Some (focusIn_elements p cont focus opts ! i)"
  shows "\<exists>st'. focusIn p cont focus opts st = Inr (Success, st')
           \<and> activeElement st' = Some (focusIn_elements p cont focus opts
                                        ! ((i + 1) mod length (focusIn_elements p cont focus opts)))"
proof -
  let ?els = "focusIn_elements p cont focus opts"
  let ?e = "?els ! ((i + 1) mod length ?els)"
  from nx obtain d where d: "focusIn_direction focus = Inr d"
    using focusIn_direction_valid by blast
  have "indexOfRelative ?els (focusIn_relativeTo opts st) = int i"
    using rt indexOf_nth[OF dist i] by (simp add: indexOfRelative_def)
  with nx nf np have s: "focusIn_startIndex focus ?els (focusIn_relativeTo opts st) = Inr (int i + 1)"
    by (simp add: focusIn_startIndex_def)
  from i have "?e \<in> set ?els" by (intro nth_mem succ_mod_less)
  with acc have "focusAccepted p ?e" by blast
  then have "activeElement (focus_call p ?e (focus AND Focus_NoScroll \<noteq> 0) st) = Some ?e"
    by (simp add: focus_call_def)
  with focusIn_run[OF d s focusIn_loop_wrap_step[OF wrap i acc]] show ?thesis
    by (auto simp: select_call_def)
qed

lemma focusIn_repeated_wrap:
  assumes dist: "distinct (focusIn_elements p cont focus opts)"
    and acc: "\<forall>e \<in> set (focusIn_elements p cont focus opts). focusAccepted p e"
    and nx: "focus AND Focus_Next \<noteq> 0" and wrap: "focus AND Focus_WrapAround \<noteq> 0"
    and nf: "focus AND Focus_First = 0" and np: "focus AND Focus_Previous = 0"
    and rel: "relativeTo opts = None"
  shows "i < length (focusIn_elements p cont focus opts) \<Longrightarrow>
         activeElement st = Some (focusIn_elements p cont focus opts ! i) \<Longrightarrow>
         \<exists>st'. focusIn_repeated k p cont focus opts st = Some st'
           \<and> activeElement st' = Some (focusIn_elements p cont focus opts
                                        ! ((i + k) mod length (focusIn_elements p cont focus opts)))"
proof (induction k arbitrary: i st)
  case 0
  then show ?case by simp
next
  case (Suc k)
  let ?els = "focusIn_elements p cont focus opts"
  let ?j = "(i + 1) mod length ?els"
  from rel Suc.prems(2) have rt: "focusIn_relativeTo opts st = Some (?els ! i)"
    by (simp add: focusIn_relativeTo_def)
  from focusIn_wrap_next_step[OF dist acc nx wrap nf np Suc.prems(1) rt]
  obtain st1 where st1: "focusIn p cont focus opts st = Inr (Success, st1)"
    "activeElement st1 = Some (?els ! ?j)" by blast
  from Suc.prems(1) have j: "?j < length ?els" by (rule succ_mod_less)
  from Suc.IH[OF j st1(2)] obtain st' where
    st': "focusIn_repeated k p cont focus opts st1 = Some st'"
    "activeElement st' = Some (?els ! ((?j + k) mod length ?els))" by blast
  have "(?j + k) mod length ?els = (i + Suc k) mod length ?els"
    by (simp add: mod_add_left_eq)
  with st1 st' show ?case by simp
qed

lemma focusIn_startIndex_ge: "focusIn_startIndex focus els rel = Inr s \<Longrightarrow> - 1 \<le> s"
  by (auto simp: focusIn_startIndex_def split: if_splits)

lemma focusIn_loop_wrap_success:
  assumes wrap: "focus AND Focus_WrapAround \<noteq> 0" and ne: "elements \<noteq> []"
    and acc: "\<forall>e \<in> set elements. focusAccepted p e" and s: "- 1 \<le> s"
  shows "\<exists>e st'. focusIn_loop p focus elements s d 0 st = (Success, Some e, st')
           \<and> activeElement st' = Some e"
proof -
  let ?n = "int (length elements)"
  from ne have n: "0 < ?n" by simp
  with s have nn: "0 \<le> s + 0 + ?n" by linarith
  define k where "k = (s + 0 + ?n) mod ?n"
  have k: "0 \<le> k" "k < ?n" using n by (simp_all add: k_def)
  have "js_rem (s + 0 + ?n) ?n = Some k"
    unfolding k_def using nn n by (rule js_rem_nonneg)
  with k wrap have nx: "loop_next focus elements s 0 = Some (elements ! nat k)"
    by (simp add: loop_next_def js_index_def)
  from k have "elements ! nat k \<in> set elements" by (intro nth_mem) linarith
  with acc have a: "focusAccepted p (elements ! nat k)" by blast
  then have act: "isActive (Some (elements ! nat k))
                    (loop_focus p focus (Some (elements ! nat k)) st)"
    by (simp add: isActive_def loop_focus_def focus_call_def)
  from n have g: "\<not> (0 \<ge> ?n \<or> 0 + ?n \<le> 0)" by linarith
  from wrap act g have "focusIn_loop p focus elements s d 0 st =
      (Success, Some (elements ! nat k), loop_focus p focus (Some (elements ! nat k)) st)"
    by (subst focusIn_loop_unfold) (simp add: nx)
  moreover from a have "activeElement (loop_focus p focus (Some (elements ! nat k)) st)
      = Some (elements ! nat k)"
    by (simp add: loop_focus_def focus_call_def)
  ultimately show ?thesis by blast
qed

lemma focusIn_wrap_success:
  assumes ne: "focusIn_elements p cont focus opts \<noteq> []"
    and acc: "\<forall>e \<in> set (focusIn_elements p cont focus opts). focusAccepted p e"
    and nx: "focus AND Focus_Next \<noteq> 0" and wrap: "focus AND Focus_WrapAround \<noteq> 0"
  shows "\<exists>st'. focusIn p cont focus opts st = Inr (Success, st')"
proof -
  let ?els = "focusIn_elements p cont focus opts"
  from nx obtain d where d: "focusIn_direction focus = Inr d"
    using focusIn_direction_valid by blast
  from nx obtain s where s: "focusIn_startIndex focus ?els (focusIn_relativeTo opts st) = Inr s"
    using focusIn_startIndex_valid by blast
  from focusIn_loop_wrap_success[OF wrap ne acc focusIn_startIndex_ge[OF s], of d st]
  obtain e st1 where "focusIn_loop p focus ?els s d 0 st = (Success, Some e, st1)" by blast
  from focusIn_run[OF d s this] show ?thesis by simp
qed

lemma focusIn_repeated_success:
  assumes ne: "focusIn_elements p cont focus opts \<noteq> []"
    and acc: "\<forall>e \<in> set (focusIn_elements p cont focus opts). focusAccepted p e"
    and nx: "focus AND Focus_Next \<noteq> 0" and wrap: "focus AND Focus_WrapAround \<noteq> 0"
  shows "\<exists>st'. focusIn_repeated k p cont focus opts st = Some st'"
proof (induction k arbitrary: st)
  case 0
  show ?case by simp
next
  case (Suc k)
  from focusIn_wrap_success[OF ne acc nx wrap, of st]
  obtain st1 where "focusIn p cont focus opts st = Inr (Success, st1)" by blast
  with Suc.IH[of st1] show ?case by simp
qed

section \<open>Claims about the focus mover\<close>

lemmas Focus_defs = Focus_First_def Focus_Previous_def Focus_Next_def Focus_Last_def
  Focus_WrapAround_def Focus_NoScroll_def Focus_AutoFocus_def

lemmas scenario_defs = scenario_def el_root_def el_a_def el_b_def el_c_def el_d_def mkElement_def
  focusOn_def el_auto_def el_tab0_def el_tab3_def el_span_def el_neg_def el_hidden_def
  scenario_with_def

lemmas focusIn_elements_eval = focusIn_elements_def sortByDomNode_def js_sort_def
  compareDomNode_def documentPosition_def getFocusableElements_def
  getAutoFocusableElements_def querySelectorAll_def compareTabIndex_def tabIndexOrMax_def
  tabIndex_def tabIndexDefault_def matches_def focusableSelector_def autoFocusableSelector_def
  notTabindexMinusOne_def contains_def isSkipped_def Let_def

lemmas focusIn_eval = focusIn_def focusIn_loop.simps focusIn_direction_def
  focusIn_startIndex_def focusIn_relativeTo_def indexOfRelative_def js_index_def js_rem_def
  isActive_def focus_call_def select_call_def isSelectableElement_def selectableSelector_def
  default_options_def

text \<open>
  C10. With a directive that contains one of First, Previous, Next, Last, \<open>focusIn\<close> on an
  empty candidate list returns \<open>Error\<close>: it does not throw, and the state it returns is
  the state it was given, so no \<open>focus\<close> call was made and the active element is the same.
  The candidate list is empty for an empty explicit list and for a container in which the
  selector in force finds nothing.
\<close>

theorem focusIn_empty_candidates:
  assumes valid: "focus AND Focus_First \<noteq> 0 \<or> focus AND Focus_Previous \<noteq> 0
           \<or> focus AND Focus_Next \<noteq> 0 \<or> focus AND Focus_Last \<noteq> 0"
  shows "(focusIn_elements p cont focus opts = []
            \<longrightarrow> focusIn p cont focus opts st = Inr (Error, st))
       \<and> focusIn_elements p (Elements []) focus opts = []
       \<and> (querySelectorAll p c (focusableSelector (nodeEnvTest p)) = []
            \<and> focus AND Focus_AutoFocus = 0
            \<longrightarrow> focusIn_elements p (Container c) focus opts = [])
       \<and> (querySelectorAll p c (autoFocusableSelector (nodeEnvTest p)) = []
            \<and> focus AND Focus_AutoFocus \<noteq> 0
            \<longrightarrow> focusIn_elements p (Container c) focus opts = [])"
proof (intro conjI)
  show "focusIn_elements p cont focus opts = [] \<longrightarrow> focusIn p cont focus opts st = Inr (Error, st)"
  proof
    assume e: "focusIn_elements p cont focus opts = []"
    from valid obtain d where d: "focusIn_direction focus = Inr d"
      using focusIn_direction_valid by blast
    from valid obtain s where s: "focusIn_startIndex focus (focusIn_elements p cont focus opts)
           (focusIn_relativeTo opts st) = Inr s"
      using focusIn_startIndex_valid by blast
    have "focusIn_loop p focus (focusIn_elements p cont focus opts) s d 0 st = (Error, None, st)"
      by (simp add: e focusIn_loop_empty)
    from focusIn_run[OF d s this] show "focusIn p cont focus opts st = Inr (Error, st)" by simp
  qed
  show "focusIn_elements p (Elements []) focus opts = []"
    by (simp add: focusIn_elements_def sortByDomNode_def js_sort_Nil)
  show "querySelectorAll p c (focusableSelector (nodeEnvTest p)) = [] \<and> focus AND Focus_AutoFocus = 0
         \<longrightarrow> focusIn_elements p (Container c) focus opts = []"
    by (simp add: focusIn_elements_def getFocusableElements_def js_sort_Nil)
  show "querySelectorAll p c (autoFocusableSelector (nodeEnvTest p)) = [] \<and> focus AND Focus_AutoFocus \<noteq> 0
         \<longrightarrow> focusIn_elements p (Container c) focus opts = []"
    by (simp add: focusIn_elements_def getAutoFocusableElements_def js_sort_Nil)
qed

theorem focusIn_empty_candidates_witness:
  "Focus_Last AND Focus_Last \<noteq> 0
   \<and> focusIn_elements scenario (Container el_a) Focus_Last default_options = []
   \<and> focusIn scenario (Container el_a) Focus_Last default_options (focusOn (Some el_d))
       = Inr (Error, focusOn (Some el_d))"
proof -
  have v: "Focus_Last AND Focus_First \<noteq> 0 \<or> Focus_Last AND Focus_Previous \<noteq> 0
           \<or> Focus_Last AND Focus_Next \<noteq> 0 \<or> Focus_Last AND Focus_Last \<noteq> 0"
    by (simp add: Focus_defs)
  have e: "focusIn_elements scenario (Container el_a) Focus_Last default_options = []"
    by (simp add: focusIn_elements_eval default_options_def Focus_defs scenario_defs)
  from focusIn_empty_candidates[OF v, of scenario "Container el_a" default_options
         "focusOn (Some el_d)"] e
  show ?thesis by (simp add: Focus_defs)
qed

text \<open>
  C1, as the code has it. On a non-empty candidate list and without WrapAround: with Next
  as the movement flag (neither First nor Previous, which the code tests before it), when
  \<open>relativeTo\<close> is the last candidate and occurs nowhere before, \<open>focusIn\<close> returns
  \<open>Overflow\<close>; with Previous (and not First), when \<open>relativeTo\<close> is the first candidate,
  it returns \<open>Underflow\<close>. In both cases the state returned is the state given: no
  \<open>focus\<close> call, the same active element.
\<close>

theorem focusIn_boundary:
  assumes els: "focusIn_elements p cont focus opts \<noteq> []"
    and nowrap: "focus AND Focus_WrapAround = 0"
    and nofirst: "focus AND Focus_First = 0"
  shows "(focus AND Focus_Next \<noteq> 0 \<and> focus AND Focus_Previous = 0
          \<and> focusIn_relativeTo opts st = Some (last (focusIn_elements p cont focus opts))
          \<and> last (focusIn_elements p cont focus opts)
               \<notin> set (butlast (focusIn_elements p cont focus opts))
          \<longrightarrow> focusIn p cont focus opts st = Inr (Overflow, st))
       \<and> (focus AND Focus_Previous \<noteq> 0
          \<and> focusIn_relativeTo opts st = Some (hd (focusIn_elements p cont focus opts))
          \<longrightarrow> focusIn p cont focus opts st = Inr (Underflow, st))"
proof (intro conjI)
  let ?els = "focusIn_elements p cont focus opts"
  let ?rel = "focusIn_relativeTo opts st"
  show "focus AND Focus_Next \<noteq> 0 \<and> focus AND Focus_Previous = 0
         \<and> ?rel = Some (last ?els) \<and> last ?els \<notin> set (butlast ?els)
         \<longrightarrow> focusIn p cont focus opts st = Inr (Overflow, st)"
  proof (intro impI, elim conjE)
    assume nx: "focus AND Focus_Next \<noteq> 0" and np: "focus AND Focus_Previous = 0"
      and rel: "?rel = Some (last ?els)" and once: "last ?els \<notin> set (butlast ?els)"
    from nx obtain d where d: "focusIn_direction focus = Inr d"
      using focusIn_direction_valid by blast
    have "indexOfRelative ?els ?rel = int (length ?els) - 1"
      using rel indexOf_last[OF els once] by (simp add: indexOfRelative_def)
    with nx np nofirst els have s: "focusIn_startIndex focus ?els ?rel = Inr (int (length ?els))"
      by (simp add: focusIn_startIndex_def)
    have "focusIn_loop p focus ?els (int (length ?els)) d 0 st = (Overflow, None, st)"
      using els nowrap by (intro focusIn_loop_overflow) simp_all
    from focusIn_run[OF d s this] show "focusIn p cont focus opts st = Inr (Overflow, st)" by simp
  qed
  show "focus AND Focus_Previous \<noteq> 0 \<and> ?rel = Some (hd ?els)
         \<longrightarrow> focusIn p cont focus opts st = Inr (Underflow, st)"
  proof (intro impI, elim conjE)
    assume pv: "focus AND Focus_Previous \<noteq> 0" and rel: "?rel = Some (hd ?els)"
    from pv obtain d where d: "focusIn_direction focus = Inr d"
      using focusIn_direction_valid by blast
    have "indexOfRelative ?els ?rel = 0"
      using rel indexOf_hd[OF els] by (simp add: indexOfRelative_def)
    with pv nofirst have s: "focusIn_startIndex focus ?els ?rel = Inr (- 1)"
      by (simp add: focusIn_startIndex_def)
    have "focusIn_loop p focus ?els (- 1) d 0 st = (Underflow, None, st)"
      using els nowrap by (intro focusIn_loop_underflow) simp_all
    from focusIn_run[OF d s this] show "focusIn p cont focus opts st = Inr (Underflow, st)" by simp
  qed
qed

theorem focusIn_boundary_witness:
  "focusIn scenario (Elements [el_a, el_b, el_d]) Focus_Next
     \<lparr>sorted_opt = True, relativeTo = Some el_d, skipElements = []\<rparr> (focusOn (Some el_b))
     = Inr (Overflow, focusOn (Some el_b))
   \<and> focusIn scenario (Elements [el_a, el_b, el_d]) Focus_Previous
     \<lparr>sorted_opt = True, relativeTo = Some el_a, skipElements = []\<rparr> (focusOn (Some el_b))
     = Inr (Underflow, focusOn (Some el_b))"
proof -
  let ?c = "Elements [el_a, el_b, el_d]"
  let ?o1 = "\<lparr>sorted_opt = True, relativeTo = Some el_d, skipElements = []\<rparr>"
  let ?o2 = "\<lparr>sorted_opt = True, relativeTo = Some el_a, skipElements = []\<rparr>"
  have e1: "focusIn_elements scenario ?c Focus_Next ?o1 = [el_a, el_b, el_d]"
    by (simp add: focusIn_elements_eval scenario_defs)
  have e2: "focusIn_elements scenario ?c Focus_Previous ?o2 = [el_a, el_b, el_d]"
    by (simp add: focusIn_elements_eval scenario_defs)
  have "focusIn scenario ?c Focus_Next ?o1 (focusOn (Some el_b)) = Inr (Overflow, focusOn (Some el_b))"
    using focusIn_boundary[of scenario ?c Focus_Next ?o1 "focusOn (Some el_b)"]
    unfolding e1 by (simp add: Focus_defs focusIn_relativeTo_def scenario_defs)
  moreover have "focusIn scenario ?c Focus_Previous ?o2 (focusOn (Some el_b))
      = Inr (Underflow, focusOn (Some el_b))"
    using focusIn_boundary[of scenario ?c Focus_Previous ?o2 "focusOn (Some el_b)"]
    unfolding e2 by (simp add: Focus_defs focusIn_relativeTo_def scenario_defs)
  ultimately show ?thesis by simp
qed

text \<open>
  In the list d, a, d the last candidate is also the first. With Next, without WrapAround
  and relative to d, \<open>focusIn\<close> does not return \<open>Overflow\<close>: \<open>indexOf\<close> finds d at
  index 0 and focus moves to a.
\<close>

theorem focusIn_boundary_repeated_last_counterexample:
  "focusIn_elements scenario (Elements [el_d, el_a, el_d]) Focus_Next
     \<lparr>sorted_opt = False, relativeTo = Some el_d, skipElements = []\<rparr> = [el_d, el_a, el_d]
   \<and> Focus_Next AND Focus_WrapAround = 0
   \<and> focusIn_relativeTo \<lparr>sorted_opt = False, relativeTo = Some el_d, skipElements = []\<rparr>
        (focusOn (Some el_d)) = Some (last [el_d, el_a, el_d])
   \<and> focusIn scenario (Elements [el_d, el_a, el_d]) Focus_Next
       \<lparr>sorted_opt = False, relativeTo = Some el_d, skipElements = []\<rparr> (focusOn (Some el_d))
     = Inr (Success, \<lparr>activeElement = Some el_a, focusCalls = [(el_a, False)],
                      selectCalls = []\<rparr>)"
  by (simp add: focusIn_eval focusIn_elements_eval Focus_defs scenario_defs)

text \<open>
  C8. Whenever \<open>focusIn\<close> returns \<open>Success\<close>, the active element of the state it returns
  is a member of the candidate list (the list after the skip filter).
\<close>

theorem focusIn_success_in_candidates:
  assumes "focusIn p cont focus opts st = Inr (Success, st')"
  shows "\<exists>e \<in> set (focusIn_elements p cont focus opts). activeElement st' = Some e"
proof -
  let ?els = "focusIn_elements p cont focus opts"
  from assms obtain d where d: "focusIn_direction focus = Inr d"
    by (cases "focusIn_direction focus") (auto simp: focusIn_def Let_def)
  from assms d obtain s where s: "focusIn_startIndex focus ?els (focusIn_relativeTo opts st) = Inr s"
    by (cases "focusIn_startIndex focus ?els (focusIn_relativeTo opts st)")
       (auto simp: focusIn_def Let_def)
  obtain r nxt st1 where l: "focusIn_loop p focus ?els s d 0 st = (r, nxt, st1)"
    by (cases "focusIn_loop p focus ?els s d 0 st") auto
  from focusIn_run[OF d s l] assms have r: "r = Success"
    and st': "st' = (if focus AND (Focus_Next OR Focus_Previous) \<noteq> 0 \<and> isSelectableElement nxt
                   then select_call (the nxt) st1 else st1)"
    by simp_all
  from focusIn_loop_success[OF l[unfolded r]] obtain e where
    "e \<in> set ?els" "activeElement st1 = Some e" by blast
  with st' show ?thesis by (auto simp: select_call_def)
qed

theorem focusIn_success_in_candidates_witness:
  "focusIn scenario (Elements [el_a, el_b, el_d]) Focus_Next
     \<lparr>sorted_opt = True, relativeTo = Some el_b, skipElements = []\<rparr> (focusOn None)
     = Inr (Success, \<lparr>activeElement = Some el_d, focusCalls = [(el_d, False)], selectCalls = []\<rparr>)
   \<and> (\<exists>e \<in> set (focusIn_elements scenario (Elements [el_a, el_b, el_d]) Focus_Next
                   \<lparr>sorted_opt = True, relativeTo = Some el_b, skipElements = []\<rparr>).
         activeElement \<lparr>activeElement = Some el_d, focusCalls = [(el_d, False)], selectCalls = []\<rparr>
           = Some e)"
proof -
  have h: "focusIn scenario (Elements [el_a, el_b, el_d]) Focus_Next
     \<lparr>sorted_opt = True, relativeTo = Some el_b, skipElements = []\<rparr> (focusOn None)
     = Inr (Success, \<lparr>activeElement = Some el_d, focusCalls = [(el_d, False)], selectCalls = []\<rparr>)"
    by (simp add: focusIn_eval focusIn_elements_eval Focus_defs scenario_defs)
  from focusIn_success_in_candidates[OF h] h show ?thesis by blast
qed

text \<open>
  C3, as the code has it. On a non-empty candidate list all of whose elements accept
  focus, with Next and WrapAround set, \<open>focusIn\<close> returns \<open>Success\<close> from every state and
  for every \<open>relativeTo\<close>, and so does each of any number of successive calls: never
  \<open>Error\<close>, \<open>Overflow\<close> or \<open>Underflow\<close>. When moreover the list has no repeated element
  and Next is the movement flag (neither First nor Previous is set), a call made relative
  to the candidate at index \<open>i\<close> puts focus on the candidate at index \<open>(i + 1) mod length\<close>;
  so with \<open>relativeTo\<close> left to the active element and focus on the candidate at index
  \<open>i\<close>, after \<open>k\<close> successive calls focus rests on the candidate at index
  \<open>(i + k) mod length\<close>, and after length-many calls on the starting element again.
\<close>

theorem focusIn_wrap_cycle:
  assumes ne: "focusIn_elements p cont focus opts \<noteq> []"
    and acc: "\<forall>e \<in> set (focusIn_elements p cont focus opts). focusAccepted p e"
    and nx: "focus AND Focus_Next \<noteq> 0" and wrap: "focus AND Focus_WrapAround \<noteq> 0"
  shows "(\<exists>st'. focusIn p cont focus opts st = Inr (Success, st'))
       \<and> (\<exists>st'. focusIn_repeated k p cont focus opts st = Some st')
       \<and> (distinct (focusIn_elements p cont focus opts)
           \<and> focus AND Focus_First = 0 \<and> focus AND Focus_Previous = 0
           \<and> i < length (focusIn_elements p cont focus opts)
           \<and> focusIn_relativeTo opts st = Some (focusIn_elements p cont focus opts ! i)
           \<longrightarrow> (\<exists>st'. focusIn p cont focus opts st = Inr (Success, st')
                  \<and> activeElement st' = Some (focusIn_elements p cont focus opts
                        ! ((i + 1) mod length (focusIn_elements p cont focus opts)))))
       \<and> (distinct (focusIn_elements p cont focus opts)
           \<and> focus AND Focus_First = 0 \<and> focus AND Focus_Previous = 0
           \<and> relativeTo opts = None
           \<and> i < length (focusIn_elements p cont focus opts)
           \<and> activeElement st = Some (focusIn_elements p cont focus opts ! i)
           \<longrightarrow> (\<exists>st'. focusIn_repeated k p cont focus opts st = Some st'
                  \<and> activeElement st' = Some (focusIn_elements p cont focus opts
                        ! ((i + k) mod length (focusIn_elements p cont focus opts))))
               \<and> (\<exists>st'. focusIn_repeated (length (focusIn_elements p cont focus opts))
                           p cont focus opts st = Some st'
                  \<and> activeElement st' = Some (focusIn_elements p cont focus opts ! i)))"
proof (intro conjI impI)
  show "\<exists>st'. focusIn p cont focus opts st = Inr (Success, st')"
    by (rule focusIn_wrap_success[OF ne acc nx wrap])
  show "\<exists>st'. focusIn_repeated k p cont focus opts st = Some st'"
    by (rule focusIn_repeated_success[OF ne acc nx wrap])
next
  assume h: "distinct (focusIn_elements p cont focus opts)
           \<and> focus AND Focus_First = 0 \<and> focus AND Focus_Previous = 0
           \<and> i < length (focusIn_elements p cont focus opts)
           \<and> focusIn_relativeTo opts st = Some (focusIn_elements p cont focus opts ! i)"
  then have dist: "distinct (focusIn_elements p cont focus opts)"
    and nf: "focus AND Focus_First = 0" and np: "focus AND Focus_Previous = 0"
    and i: "i < length (focusIn_elements p cont focus opts)"
    and rt: "focusIn_relativeTo opts st = Some (focusIn_elements p cont focus opts ! i)"
    by simp_all
  show "\<exists>st'. focusIn p cont focus opts st = Inr (Success, st')
          \<and> activeElement st' = Some (focusIn_elements p cont focus opts
                ! ((i + 1) mod length (focusIn_elements p cont focus opts)))"
    by (rule focusIn_wrap_next_step[OF dist acc nx wrap nf np i rt])
next
  assume h: "distinct (focusIn_elements p cont focus opts)
           \<and> focus AND Focus_First = 0 \<and> focus AND Focus_Previous = 0
           \<and> relativeTo opts = None
           \<and> i < length (focusIn_elements p cont focus opts)
           \<and> activeElement st = Some (focusIn_elements p cont focus opts ! i)"
  then have dist: "distinct (focusIn_elements p cont focus opts)"
    and nf: "focus AND Focus_First = 0" and np: "focus AND Focus_Previous = 0"
    and rel: "relativeTo opts = None"
    and i: "i < length (focusIn_elements p cont focus opts)"
    and act: "activeElement st = Some (focusIn_elements p cont focus opts ! i)"
    by simp_all
  show "\<exists>st'. focusIn_repeated k p cont focus opts st = Some st'
            \<and> activeElement st' = Some (focusIn_elements p cont focus opts
                  ! ((i + k) mod length (focusIn_elements p cont focus opts)))"
    by (rule focusIn_repeated_wrap[OF dist acc nx wrap nf np rel i act])
  from focusIn_repeated_wrap[OF dist acc nx wrap nf np rel i act,
         of "length (focusIn_elements p cont focus opts)"] i
  show "\<exists>st'. focusIn_repeated (length (focusIn_elements p cont focus opts)) p cont focus opts st
                  = Some st'
            \<and> activeElement st' = Some (focusIn_elements p cont focus opts ! i)"
    by simp
qed

theorem focusIn_wrap_cycle_witness:
  "(\<exists>st'. focusIn_repeated 2 scenario (Container el_root) (Focus_Next OR Focus_WrapAround)
             default_options (focusOn (Some el_b)) = Some st'
         \<and> activeElement st' = Some el_a)
   \<and> (\<exists>st'. focusIn scenario (Container el_root) (Focus_Next OR Focus_WrapAround)
             default_options (focusOn None) = Inr (Success, st'))"
proof -
  let ?c = "Container el_root"
  let ?f = "Focus_Next OR Focus_WrapAround"
  have e: "focusIn_elements scenario ?c ?f default_options = [el_a, el_b, el_d]"
    by (simp add: focusIn_elements_eval default_options_def Focus_defs scenario_defs)
  have ne: "focusIn_elements scenario ?c ?f default_options \<noteq> []"
    and acc: "\<forall>e \<in> set (focusIn_elements scenario ?c ?f default_options). focusAccepted scenario e"
    unfolding e by (simp_all add: scenario_defs)
  have nx: "?f AND Focus_Next \<noteq> 0" and wrap: "?f AND Focus_WrapAround \<noteq> 0"
    by (simp_all add: Focus_defs)
  note t1 = focusIn_wrap_cycle[OF ne acc nx wrap, of "focusOn (Some el_b)" 2 1]
  note t2 = focusIn_wrap_cycle[OF ne acc nx wrap, of "focusOn None" 2 1]
  from t1 have "distinct (focusIn_elements scenario ?c ?f default_options)
           \<and> ?f AND Focus_First = 0 \<and> ?f AND Focus_Previous = 0
           \<and> relativeTo default_options = None
           \<and> 1 < length (focusIn_elements scenario ?c ?f default_options)
           \<and> activeElement (focusOn (Some el_b))
               = Some (focusIn_elements scenario ?c ?f default_options ! 1)
           \<longrightarrow> (\<exists>st'. focusIn_repeated 2 scenario ?c ?f default_options (focusOn (Some el_b))
                        = Some st'
                  \<and> activeElement st' = Some (focusIn_elements scenario ?c ?f default_options
                        ! ((1 + 2) mod length (focusIn_elements scenario ?c ?f default_options))))"
    by blast
  then have "\<exists>st'. focusIn_repeated 2 scenario ?c ?f default_options (focusOn (Some el_b)) = Some st'
          \<and> activeElement st' = Some ([el_a, el_b, el_d] ! ((1 + 2) mod length [el_a, el_b, el_d]))"
    unfolding e by (simp add: Focus_defs default_options_def scenario_defs)
  then have "\<exists>st'. focusIn_repeated 2 scenario ?c ?f default_options (focusOn (Some el_b)) = Some st'
          \<and> activeElement st' = Some el_a"
    by simp
  moreover from t2 have "\<exists>st'. focusIn scenario ?c ?f default_options (focusOn None)
      = Inr (Success, st')"
    by blast
  ultimately show ?thesis by blast
qed

text \<open>
  In the list d, a, d every element accepts focus. With focus on the element at index 2
  and \<open>Next | WrapAround\<close>, the move ends on a, the element at index 1, not on the element
  at index \<open>(2 + 1) mod 3 = 0\<close>: \<open>indexOf\<close> finds d at index 0.
\<close>

theorem focusIn_wrap_repeated_element_counterexample:
  "focusIn_elements scenario (Elements [el_d, el_a, el_d]) (Focus_Next OR Focus_WrapAround)
     \<lparr>sorted_opt = False, relativeTo = None, skipElements = []\<rparr> = [el_d, el_a, el_d]
   \<and> focusAccepted scenario el_d \<and> focusAccepted scenario el_a
   \<and> activeElement (focusOn (Some el_d)) = Some ([el_d, el_a, el_d] ! 2)
   \<and> focusIn scenario (Elements [el_d, el_a, el_d]) (Focus_Next OR Focus_WrapAround)
       \<lparr>sorted_opt = False, relativeTo = None, skipElements = []\<rparr> (focusOn (Some el_d))
     = Inr (Success, \<lparr>activeElement = Some el_a, focusCalls = [(el_a, False)],
                      selectCalls = []\<rparr>)
   \<and> [el_d, el_a, el_d] ! ((2 + 1) mod length [el_d, el_a, el_d]) \<noteq> el_a"
  by (simp add: focusIn_eval focusIn_elements_eval Focus_defs scenario_defs)

text \<open>
  C6, as the code has it. \<open>focusIn\<close> throws exactly when the directive contains none of
  First, Previous, Next, Last; a directive with one or with several of them does not throw.
\<close>

theorem focusIn_throws_iff_no_movement_flag:
  "focusIn p cont focus opts st = Inl MissingFocus \<longleftrightarrow>
     focus AND Focus_First = 0 \<and> focus AND Focus_Previous = 0 \<and>
     focus AND Focus_Next = 0 \<and> focus AND Focus_Last = 0"
  by (rule focusIn_throws_iff)

theorem focusIn_throws_iff_no_movement_flag_witness:
  "focusIn scenario (Container el_root) Focus_WrapAround default_options (focusOn None)
     = Inl MissingFocus
   \<and> focusIn scenario (Container el_root) Focus_Last default_options (focusOn None)
     \<noteq> Inl MissingFocus"
  using focusIn_throws_iff_no_movement_flag[of scenario "Container el_root" Focus_WrapAround
          default_options "focusOn None"]
        focusIn_throws_iff_no_movement_flag[of scenario "Container el_root" Focus_Last
          default_options "focusOn None"]
  by (simp add: Focus_defs)

text \<open>
  The directive \<open>First | Next\<close> contains two of the four flags, not exactly one, and
  \<open>focusIn\<close> does not throw: it focuses the first candidate.
\<close>

theorem focusIn_two_movement_flags_counterexample:
  "movementFlags (Focus_First OR Focus_Next) = 2
   \<and> focusIn scenario (Container el_root) (Focus_First OR Focus_Next) default_options
       (focusOn None)
     = Inr (Success, \<lparr>activeElement = Some el_a, focusCalls = [(el_a, False)],
                      selectCalls = []\<rparr>)"
  by (simp add: movementFlags_def focusIn_eval focusIn_elements_eval Focus_defs scenario_defs)

section \<open>The Vue variant against the React variant\<close>

lemma vue_focusIn_loop_unfold:
  "vue_focusIn_loop p focus elements startIndex direction offset st =
     (if offset \<ge> int (length elements) \<or> offset + int (length elements) \<le> 0
        then (Error, None, st)
      else if focus AND Focus_WrapAround = 0 \<and> startIndex + offset < 0
        then (Underflow, None, st)
      else if focus AND Focus_WrapAround = 0 \<and> startIndex + offset \<ge> int (length elements)
        then (Overflow, None, st)
      else if isActive (loop_next focus elements startIndex offset)
                (loop_focus p focus (loop_next focus elements startIndex offset) st)
        then (Success, loop_next focus elements startIndex offset,
              loop_focus p focus (loop_next focus elements startIndex offset) st)
      else vue_focusIn_loop p focus elements startIndex direction
             (offset + direction_value direction)
             (loop_focus p focus (loop_next focus elements startIndex offset) st))"
  by (subst vue_focusIn_loop.simps) (simp add: Let_def loop_next_def loop_focus_def)

lemma vue_focusIn_loop_eq:
  "vue_focusIn_loop p focus elements startIndex direction offset st =
   focusIn_loop p focus elements startIndex direction offset st"
proof (induction "loop_measure elements direction offset" arbitrary: offset st rule: less_induct)
  case less
  show ?case
  proof (cases "offset \<ge> int (length elements) \<or> offset + int (length elements) \<le> 0")
    case True
    then show ?thesis
      by (subst vue_focusIn_loop_unfold, subst focusIn_loop_unfold) simp
  next
    case False
    from less.hyps[OF loop_measure_less[OF False]] show ?thesis
      by (subst vue_focusIn_loop_unfold, subst focusIn_loop_unfold) simp
  qed
qed

lemma isSkipped_plain: "isSkipped (map SkipElement xs) el = (el \<in> set xs)"
  by (induction xs) (auto simp: isSkipped_def)

lemma vue_getFocusableElements_eq: "vue_getFocusableElements p c = getFocusableElements p c"
  by (simp add: vue_getFocusableElements_def getFocusableElements_def)

lemma vue_focusIn_elements_eq:
  assumes "focus AND Focus_AutoFocus = 0 \<or> (\<exists>xs. cont = Elements xs)"
  shows "vue_focusIn_elements p cont focus opts = focusIn_elements p cont focus (react_options opts)"
  using assms
  by (cases cont)
     (auto simp: vue_focusIn_elements_def focusIn_elements_def react_options_def Let_def
        vue_getFocusableElements_eq vue_sortByDomNode_def sortByDomNode_def isSkipped_plain)

text \<open>
  C9, as the code has it. On an explicit element list, and on a container when the
  directive does not contain the React-only AutoFocus flag, the Vue \<open>focusIn\<close> and the
  React \<open>focusIn\<close> (given the same options, the skipped elements as plain elements)
  return the same result and leave the same state: the same active element, the same
  \<open>focus\<close> and \<open>select\<close> calls. The Vue variant always resolves a container through
  \<open>getFocusableElements\<close>.
\<close>

theorem vue_focusIn_eq_react:
  assumes "focus AND Focus_AutoFocus = 0 \<or> (\<exists>xs. cont = Elements xs)"
  shows "vue_focusIn p cont focus opts st = focusIn p cont focus (react_options opts) st
       \<and> vue_focusIn_elements p (Container c) focus opts
           = (let elements = vue_getFocusableElements p (Some c)
              in if length (vue_skipElements opts) > 0 \<and> length elements > 1
                 then filter (\<lambda>x. \<not> x \<in> set (vue_skipElements opts)) elements
                 else elements)"
proof
  have "focusIn_relativeTo (react_options opts) st
          = (case vue_relativeTo opts of Some r \<Rightarrow> Some r | None \<Rightarrow> activeElement st)"
    by (simp add: focusIn_relativeTo_def react_options_def)
  then show "vue_focusIn p cont focus opts st = focusIn p cont focus (react_options opts) st"
    unfolding vue_focusIn_def focusIn_def vue_focusIn_elements_eq[OF assms] vue_focusIn_loop_eq
    by simp
  show "vue_focusIn_elements p (Container c) focus opts
           = (let elements = vue_getFocusableElements p (Some c)
              in if length (vue_skipElements opts) > 0 \<and> length elements > 1
                 then filter (\<lambda>x. \<not> x \<in> set (vue_skipElements opts)) elements
                 else elements)"
    by (simp add: vue_focusIn_elements_def)
qed

theorem vue_focusIn_eq_react_witness:
  "vue_focusIn scenario (Container el_root) (Focus_Next OR Focus_WrapAround)
     \<lparr>vue_sorted = True, vue_relativeTo = Some el_d, vue_skipElements = [el_a]\<rparr> (focusOn None)
   = focusIn scenario (Container el_root) (Focus_Next OR Focus_WrapAround)
     \<lparr>sorted_opt = True, relativeTo = Some el_d, skipElements = [SkipElement el_a]\<rparr> (focusOn None)"
  using vue_focusIn_eq_react[of "Focus_Next OR Focus_WrapAround" "Container el_root" scenario
          "\<lparr>vue_sorted = True, vue_relativeTo = Some el_d, vue_skipElements = [el_a]\<rparr>"
          "focusOn None" el_root]
  by (simp add: Focus_defs react_options_def)

text \<open>
  With the AutoFocus flag on a container holding the button a and then a button marked
  \<open>data-autofocus\<close>, the React variant focuses the marked button and the Vue variant
  focuses a.
\<close>

theorem vue_focusIn_autofocus_counterexample:
  "focusIn (scenario_with [el_a, el_auto]) (Container el_root) (Focus_First OR Focus_AutoFocus)
     default_options (focusOn None)
     = Inr (Success, \<lparr>activeElement = Some el_auto, focusCalls = [(el_auto, False)],
                      selectCalls = []\<rparr>)
   \<and> vue_focusIn (scenario_with [el_a, el_auto]) (Container el_root)
       (Focus_First OR Focus_AutoFocus)
       \<lparr>vue_sorted = True, vue_relativeTo = None, vue_skipElements = []\<rparr> (focusOn None)
     = Inr (Success, \<lparr>activeElement = Some el_a, focusCalls = [(el_a, False)],
                      selectCalls = []\<rparr>)"
  by (simp add: vue_focusIn_def vue_focusIn_loop_eq vue_focusIn_elements_def
        vue_getFocusableElements_def focusIn_eval focusIn_elements_eval Focus_defs scenario_defs)

section \<open>Properties of the layer registry\<close>

lemma REMOVE_remove1: "REMOVE i h = remove1 i h"
proof (induction h)
  case Nil
  then show ?case by (simp add: REMOVE_def)
next
  case (Cons x xs)
  show ?case
  proof (cases "x = i")
    case True
    then show ?thesis by (simp add: REMOVE_def)
  next
    case False
    have ge: "- 1 \<le> indexOf xs i" by (rule indexOf_ge)
    show ?thesis
    proof (cases "indexOf xs i = - 1")
      case True
      with False Cons.IH show ?thesis by (simp add: REMOVE_def Let_def)
    next
      case nf: False
      with ge have nn: "0 \<le> indexOf xs i" by linarith
      then have "nat (indexOf xs i + 1) = Suc (nat (indexOf xs i))"
        and "indexOf xs i + 1 \<noteq> - 1" by linarith+
      with False nf Cons.IH show ?thesis by (simp add: REMOVE_def Let_def)
    qed
  qed
qed

lemma ADD_distinct: "distinct h \<Longrightarrow> distinct (ADD i h)"
  by (simp add: ADD_def)

lemma REMOVE_distinct: "distinct h \<Longrightarrow> distinct (REMOVE i h)"
  by (simp add: REMOVE_remove1)

lemma dispatch_distinct: "distinct (stores s) \<Longrightarrow> distinct (dispatch scope act stores s)"
  by (cases act) (auto simp: dispatch_def ADD_distinct REMOVE_distinct)

lemma dispatchAll_distinct:
  "(\<And>s. distinct (stores s)) \<Longrightarrow> distinct (dispatchAll acts stores s)"
proof (induction acts arbitrary: stores)
  case Nil
  then show ?case by simp
next
  case (Cons a acts)
  obtain scope act where a: "a = (scope, act)" by (cases a)
  have "\<And>s. distinct (dispatch scope act stores s)"
    using Cons.prems by (rule dispatch_distinct)
  from Cons.IH[OF this] a show ?case by simp
qed

lemma reachable_distinct: "distinct (dispatchAll acts initialStores s)"
  by (rule dispatchAll_distinct) (simp add: initialStores_def)

lemma useIsTopLayer_registered:
  assumes "distinct h" "i \<in> set h"
  shows "useIsTopLayer True i h \<longleftrightarrow> i = last h"
proof -
  from assms(2) have ne: "h \<noteq> []" by auto
  from indexOf_in[OF assms(2)] have idx: "indexOf h i \<noteq> - 1" by linarith
  have top: "useIsTopLayer True i h \<longleftrightarrow> indexOf h i = int (length h) - 1"
    using idx by (simp add: useIsTopLayer_def Let_def)
  from assms(2) obtain k where k: "k < length h" "h ! k = i" by (auto simp: in_set_conv_nth)
  with indexOf_nth[OF assms(1) k(1)] have ik: "indexOf h i = int k" by simp
  show ?thesis
  proof
    assume "useIsTopLayer True i h"
    with top ik have "k = length h - 1" by linarith
    with k ne show "i = last h" by (simp add: last_conv_nth)
  next
    assume l: "i = last h"
    from assms(1) ne have "last h \<notin> set (butlast h)"
      by (metis append_butlast_last_id distinct_append disjoint_iff distinct.simps(2)
            list.set_intros(1) not_distinct_conv_prefix)
    from indexOf_last[OF ne this] l top show "useIsTopLayer True i h" by simp
  qed
qed

lemma useIsTopLayer_unregistered: "i \<notin> set h \<Longrightarrow> useIsTopLayer True i h"
  by (simp add: useIsTopLayer_def Let_def indexOf_notin)

lemma remove1_last_distinct: "distinct h \<Longrightarrow> h \<noteq> [] \<Longrightarrow> remove1 (last h) h = butlast h"
proof (induction h)
  case Nil
  then show ?case by simp
next
  case (Cons x xs)
  then show ?case by (cases xs) auto
qed

lemma filter_absent: "j \<notin> set h \<Longrightarrow> filter (\<lambda>x. x \<noteq> j) h = h"
  by (induction h) auto

lemma remove1_distinct_filter: "distinct h \<Longrightarrow> remove1 j h = filter (\<lambda>x. x \<noteq> j) h"
  by (induction h) (auto simp: filter_absent)

text \<open>
  C2. Let \<open>h\<close> be the sequence of a scope after any series of dispatches to the registry.
  Among the instances in \<open>h\<close> (registered, hence enabled), \<open>useIsTopLayer\<close> is true of
  the last one and of no other, so of at most one. The last one is the most recently
  registered that is still enabled: \<open>h\<close> has no repeated entry, enabling an instance that
  is not in \<open>h\<close> appends it, enabling one that is in \<open>h\<close> changes nothing, and disabling
  any instance takes just that instance out and keeps the others in their order. So
  disabling the top instance leaves \<open>h\<close> without its last entry, and the entry before it is
  then the top. A disabled instance gets \<open>False\<close>. An enabled instance that is not in \<open>h\<close>
  yet gets the answer it gets once appended, \<open>True\<close>.
\<close>

theorem top_layer_is_last_registered:
  assumes h: "h = dispatchAll acts initialStores scope"
  shows "(\<forall>i \<in> set h. useIsTopLayer True i h \<longleftrightarrow> i = last h)
       \<and> (\<forall>i \<in> set h. \<forall>j \<in> set h.
             useIsTopLayer True i h \<and> useIsTopLayer True j h \<longrightarrow> i = j)
       \<and> (h \<noteq> [] \<longrightarrow>
             useIsTopLayer_cleanup True scope (last h) (dispatchAll acts initialStores) scope
               = butlast h)
       \<and> (butlast h \<noteq> [] \<longrightarrow> useIsTopLayer True (last (butlast h)) (butlast h))
       \<and> (\<forall>i. \<not> useIsTopLayer False i h)
       \<and> (\<forall>i. i \<notin> set h \<longrightarrow>
             useIsTopLayer True i h \<and> useIsTopLayer True i (h @ [i])
             \<and> useIsTopLayer_effect True scope i (dispatchAll acts initialStores) scope
                 = h @ [i])
       \<and> distinct h
       \<and> (\<forall>j. useIsTopLayer_cleanup True scope j (dispatchAll acts initialStores) scope
                 = filter (\<lambda>x. x \<noteq> j) h)
       \<and> (\<forall>i \<in> set h.
             useIsTopLayer_effect True scope i (dispatchAll acts initialStores) scope = h)
       \<and> (\<forall>j other. other \<noteq> scope \<longrightarrow>
             useIsTopLayer_cleanup True scope j (dispatchAll acts initialStores) other
               = dispatchAll acts initialStores other
             \<and> useIsTopLayer_effect True scope j (dispatchAll acts initialStores) other
               = dispatchAll acts initialStores other)"
proof -
  have d: "distinct h" unfolding h by (rule reachable_distinct)
  have 1: "\<forall>i \<in> set h. useIsTopLayer True i h \<longleftrightarrow> i = last h"
  proof
    fix i assume "i \<in> set h"
    then show "useIsTopLayer True i h \<longleftrightarrow> i = last h"
      by (rule useIsTopLayer_registered[OF d])
  qed
  have 2: "\<forall>i \<in> set h. \<forall>j \<in> set h.
             useIsTopLayer True i h \<and> useIsTopLayer True j h \<longrightarrow> i = j"
  proof (intro ballI impI)
    fix i j assume "i \<in> set h" "j \<in> set h"
      and "useIsTopLayer True i h \<and> useIsTopLayer True j h"
    then have "i = last h" "j = last h"
      using useIsTopLayer_registered[OF d] by simp_all
    then show "i = j" by simp
  qed
  have 3: "h \<noteq> [] \<longrightarrow>
             useIsTopLayer_cleanup True scope (last h) (dispatchAll acts initialStores) scope
               = butlast h"
    using remove1_last_distinct[OF d]
    by (simp add: useIsTopLayer_cleanup_def dispatch_def REMOVE_remove1 h[symmetric])
  have 4: "butlast h \<noteq> [] \<longrightarrow> useIsTopLayer True (last (butlast h)) (butlast h)"
  proof
    assume ne: "butlast h \<noteq> []"
    from d have "distinct (butlast h)" by (rule distinct_butlast)
    from useIsTopLayer_registered[OF this last_in_set[OF ne]]
    show "useIsTopLayer True (last (butlast h)) (butlast h)" by simp
  qed
  have 5: "\<forall>i. \<not> useIsTopLayer False i h"
    by (simp add: useIsTopLayer_def)
  have 6: "\<forall>i. i \<notin> set h \<longrightarrow>
             useIsTopLayer True i h \<and> useIsTopLayer True i (h @ [i])
             \<and> useIsTopLayer_effect True scope i (dispatchAll acts initialStores) scope
                 = h @ [i]"
  proof (intro allI impI conjI)
    fix i assume ni: "i \<notin> set h"
    then show "useIsTopLayer True i h" by (rule useIsTopLayer_unregistered)
    from d ni have "distinct (h @ [i])" by simp
    from useIsTopLayer_registered[OF this, of i] show "useIsTopLayer True i (h @ [i])" by simp
    from ni show "useIsTopLayer_effect True scope i (dispatchAll acts initialStores) scope
                 = h @ [i]"
      by (simp add: useIsTopLayer_effect_def dispatch_def ADD_def h[symmetric])
  qed
  have 7: "\<forall>j. useIsTopLayer_cleanup True scope j (dispatchAll acts initialStores) scope
                 = filter (\<lambda>x. x \<noteq> j) h"
    using remove1_distinct_filter[OF d]
    by (simp add: useIsTopLayer_cleanup_def dispatch_def REMOVE_remove1 h[symmetric])
  have 8: "\<forall>i \<in> set h.
             useIsTopLayer_effect True scope i (dispatchAll acts initialStores) scope = h"
    by (simp add: useIsTopLayer_effect_def dispatch_def ADD_def h[symmetric])
  have 9: "\<forall>j other. other \<noteq> scope \<longrightarrow>
             useIsTopLayer_cleanup True scope j (dispatchAll acts initialStores) other
               = dispatchAll acts initialStores other
             \<and> useIsTopLayer_effect True scope j (dispatchAll acts initialStores) other
               = dispatchAll acts initialStores other"
    by (simp add: useIsTopLayer_cleanup_def useIsTopLayer_effect_def dispatch_def)
  show ?thesis by (intro conjI; fact 1 2 3 4 5 6 d 7 8 9)
qed

theorem top_layer_is_last_registered_witness:
  "useIsTopLayer True ''C'' [''A'', ''B'', ''C'']
   \<and> \<not> useIsTopLayer True ''A'' [''A'', ''B'', ''C'']
   \<and> \<not> useIsTopLayer True ''B'' [''A'', ''B'', ''C'']
   \<and> useIsTopLayer_cleanup True ''outside-click'' ''C''
        (dispatchAll [(''outside-click'', Add ''A''), (''outside-click'', Add ''B''),
                      (''outside-click'', Add ''C'')] initialStores) ''outside-click''
      = [''A'', ''B'']
   \<and> useIsTopLayer True ''B'' [''A'', ''B'']
   \<and> useIsTopLayer_cleanup True ''outside-click'' ''B''
        (dispatchAll [(''outside-click'', Add ''A''), (''outside-click'', Add ''B''),
                      (''outside-click'', Add ''C'')] initialStores) ''outside-click''
      = [''A'', ''C'']"
proof -
  let ?acts = "[(''outside-click'', Add ''A''), (''outside-click'', Add ''B''),
                (''outside-click'', Add ''C'')]"
  let ?h = "[''A'', ''B'', ''C'']"
  have h: "?h = dispatchAll ?acts initialStores ''outside-click''"
    by (simp add: initialStores_def dispatch_def ADD_def)
  note t = top_layer_is_last_registered[OF h]
  from t have a: "\<forall>i \<in> set ?h. useIsTopLayer True i ?h \<longleftrightarrow> i = last ?h"
    by (rule conjunct1)
  from t have c: "?h \<noteq> [] \<longrightarrow>
      useIsTopLayer_cleanup True ''outside-click'' (last ?h)
        (dispatchAll ?acts initialStores) ''outside-click'' = butlast ?h"
    by (rule conjunct1[OF conjunct2[OF conjunct2]])
  from t have d: "butlast ?h \<noteq> [] \<longrightarrow> useIsTopLayer True (last (butlast ?h)) (butlast ?h)"
    by (rule conjunct1[OF conjunct2[OF conjunct2[OF conjunct2]]])
  from t have r: "\<forall>j. useIsTopLayer_cleanup True ''outside-click'' j
        (dispatchAll ?acts initialStores) ''outside-click'' = filter (\<lambda>x. x \<noteq> j) ?h"
    by (rule conjunct1[OF conjunct2[OF conjunct2[OF conjunct2[OF conjunct2[OF conjunct2[OF
          conjunct2[OF conjunct2]]]]]]])
  from a have "useIsTopLayer True ''C'' ?h" and "\<not> useIsTopLayer True ''A'' ?h"
    and "\<not> useIsTopLayer True ''B'' ?h" by simp_all
  moreover from c have "useIsTopLayer_cleanup True ''outside-click'' ''C''
        (dispatchAll ?acts initialStores) ''outside-click'' = [''A'', ''B'']" by simp
  moreover from d have "useIsTopLayer True ''B'' [''A'', ''B'']" by simp
  moreover from r have "useIsTopLayer_cleanup True ''outside-click'' ''B''
        (dispatchAll ?acts initialStores) ''outside-click'' = [''A'', ''C'']" by simp
  ultimately show ?thesis by blast
qed

section \<open>Properties of the focusable element index\<close>

lemma compareTabIndex_le: "compareTabIndex a z \<le> 0 \<longleftrightarrow> tabIndexOrMax a \<le> tabIndexOrMax z"
  by (simp add: compareTabIndex_def sgn_if)

lemma js_insert_tabIndex: "js_insert compareTabIndex x ys = insort_key tabIndexOrMax x ys"
  by (induction ys) (simp_all add: compareTabIndex_le)

lemma js_sort_tabIndex: "js_sort compareTabIndex xs = sort_key tabIndexOrMax xs"
proof -
  have "js_insert compareTabIndex = insort_key tabIndexOrMax"
    by (intro ext) (rule js_insert_tabIndex)
  then show ?thesis by (simp add: js_sort_def sort_key_def)
qed

text \<open>
  C7, as the code has it. \<open>getFocusableElements\<close> returns the selected descendants,
  each as often as selected, in ascending order of the key \<open>tabIndex || MAX_SAFE_INTEGER\<close>,
  and elements of equal key keep document order. An element whose \<open>tabIndex\<close> is 0,
  by an explicit \<open>tabindex="0"\<close> or by an absent attribute on a natively focusable tag
  alike, has the key \<open>MAX_SAFE_INTEGER\<close>; so it comes after every element whose
  \<open>tabIndex\<close> is another number below \<open>MAX_SAFE_INTEGER\<close>.
\<close>

theorem getFocusableElements_stable_sort:
  assumes r: "r = getFocusableElements p (Some c)"
    and q: "q = querySelectorAll p c (focusableSelector (nodeEnvTest p))"
  shows "mset r = mset q
       \<and> sorted (map tabIndexOrMax r)
       \<and> (\<forall>k. filter (\<lambda>e. tabIndexOrMax e = k) r = filter (\<lambda>e. tabIndexOrMax e = k) q)
       \<and> (\<forall>e. tabIndex e = 0 \<longrightarrow> tabIndexOrMax e = MAX_SAFE_INTEGER)
       \<and> (\<forall>e. tabIndex e \<noteq> 0 \<longrightarrow> tabIndexOrMax e = tabIndex e)
       \<and> (\<forall>i j. i < length r \<and> j < length r \<and> tabIndex (r ! i) = 0
              \<and> tabIndex (r ! j) \<noteq> 0 \<and> tabIndex (r ! j) < MAX_SAFE_INTEGER \<longrightarrow> j < i)"
proof -
  have rq: "r = sort_key tabIndexOrMax q"
    by (simp add: r q getFocusableElements_def js_sort_tabIndex)
  have s: "sorted (map tabIndexOrMax r)" unfolding rq by (rule sorted_sort_key)
  have 6: "\<forall>i j. i < length r \<and> j < length r \<and> tabIndex (r ! i) = 0
              \<and> tabIndex (r ! j) \<noteq> 0 \<and> tabIndex (r ! j) < MAX_SAFE_INTEGER \<longrightarrow> j < i"
  proof (intro allI impI, elim conjE)
    fix i j assume i: "i < length r" and j: "j < length r" and zi: "tabIndex (r ! i) = 0"
      and zj: "tabIndex (r ! j) \<noteq> 0" and bj: "tabIndex (r ! j) < MAX_SAFE_INTEGER"
    show "j < i"
    proof (rule ccontr)
      assume "\<not> j < i"
      then have "i \<le> j" by simp
      with s j have "map tabIndexOrMax r ! i \<le> map tabIndexOrMax r ! j"
        by (simp add: sorted_iff_nth_mono)
      with i j have "tabIndexOrMax (r ! i) \<le> tabIndexOrMax (r ! j)" by simp
      with zi zj bj show False by (simp add: tabIndexOrMax_def)
    qed
  qed
  have 1: "mset r = mset q" unfolding rq by simp
  have 3: "\<forall>k. filter (\<lambda>e. tabIndexOrMax e = k) r = filter (\<lambda>e. tabIndexOrMax e = k) q"
    unfolding rq by (simp add: sort_key_stable)
  have 4: "\<forall>e. tabIndex e = 0 \<longrightarrow> tabIndexOrMax e = MAX_SAFE_INTEGER"
    by (simp add: tabIndexOrMax_def)
  have 5: "\<forall>e. tabIndex e \<noteq> 0 \<longrightarrow> tabIndexOrMax e = tabIndex e"
    by (simp add: tabIndexOrMax_def)
  show ?thesis by (intro conjI; fact 1 s 3 4 5 6)
qed

theorem getFocusableElements_stable_sort_witness:
  "getFocusableElements (scenario_with [el_a, el_tab0, el_tab3, el_b]) (Some el_root)
     = [el_tab3, el_a, el_tab0, el_b]
   \<and> sorted (map tabIndexOrMax [el_tab3, el_a, el_tab0, el_b])"
proof -
  let ?p = "scenario_with [el_a, el_tab0, el_tab3, el_b]"
  have r: "[el_tab3, el_a, el_tab0, el_b] = getFocusableElements ?p (Some el_root)"
    by (simp add: focusIn_elements_eval MAX_SAFE_INTEGER_def scenario_defs)
  from getFocusableElements_stable_sort[OF r refl] r show ?thesis by simp
qed

text \<open>
  The button a has no \<open>tabindex\<close> attribute, the \<open>div\<close> after it has \<open>tabindex="0"\<close>:
  the element with the absent tab index stays before the one with the explicit tab index 0.
\<close>

theorem getFocusableElements_absent_before_zero_counterexample:
  "getFocusableElements (scenario_with [el_a, el_tab0]) (Some el_root) = [el_a, el_tab0]
   \<and> tabindexAttr (attrs el_a) = None \<and> tabindexAttr (attrs el_tab0) = Some 0"
  by (simp add: focusIn_elements_eval MAX_SAFE_INTEGER_def scenario_defs)

section \<open>Properties of outside-click resolution\<close>

lemma inclusiveAncestors_nonempty: "inclusiveAncestors e \<noteq> []"
  by (cases e) simp

lemma contains_getRootNode: "contains (getRootNode target) target"
  by (simp add: contains_def getRootNode_def inclusiveAncestors_nonempty)

lemma matchesSelfOrAncestor_self: "matches e sels \<Longrightarrow> matchesSelfOrAncestor sels e"
  by (cases e) simp

lemma handleOutsideClick_outside:
  assumes "\<not> defaultPrevented ev" "isConnected p target"
    "\<not> insideContainers ev target (resolveContainers containers)"
  shows "handleOutsideClick p containers ev (Some target) =
           (if \<not> isFocusableElement p target Loose \<and> tabIndex target \<noteq> - 1
            then preventDefault ev else ev, Some target)"
  using assms by (simp add: handleOutsideClick_def contains_getRootNode)

lemma explicit_tabindex_focusable:
  assumes "tabindexAttr (attrs target) = Some n" "n \<noteq> - 1"
    "nodeEnvTest p \<longrightarrow> \<not> styleDisplayNone (attrs target)"
    "Some target \<noteq> documentBody p"
  shows "isFocusableElement p target Loose"
proof -
  from assms(1-3) have "matches target (focusableSelector (nodeEnvTest p))"
    by (simp add: matches_def focusableSelector_def notTabindexMinusOne_def)
  with assms(4) show ?thesis
    by (simp add: isFocusableElement_def matchesSelfOrAncestor_self)
qed

text \<open>
  C5, as the code has it. When the event is not default-prevented and the resolved target
  is connected and outside every container, the callback is called with the target. Before
  that, \<open>preventDefault\<close> is called on the event, which prevents the default action of a
  cancelable event, when the target is not focusable in Loose mode and its \<open>tabIndex\<close>
  is not -1; it is not called when the target is Loose-focusable or its \<open>tabIndex\<close> is
  -1. A target with an explicit tab index other than -1 is Loose-focusable, and so keeps
  its default action, unless it is the body or, in the test build of the selector, styled
  \<open>display: none\<close>.
\<close>

theorem handleOutsideClick_prevent_default:
  assumes np: "\<not> defaultPrevented ev" and conn: "isConnected p target"
    and out: "\<not> insideContainers ev target (resolveContainers containers)"
  shows "(\<not> isFocusableElement p target Loose \<and> tabIndex target \<noteq> - 1
            \<longrightarrow> handleOutsideClick p containers ev (Some target)
                  = (preventDefault ev, Some target)
                \<and> (cancelable ev \<longrightarrow> defaultPrevented (preventDefault ev)))
       \<and> (isFocusableElement p target Loose \<or> tabIndex target = - 1
            \<longrightarrow> handleOutsideClick p containers ev (Some target) = (ev, Some target))
       \<and> (\<forall>n. tabindexAttr (attrs target) = Some n \<and> n \<noteq> - 1
                \<and> (nodeEnvTest p \<longrightarrow> \<not> styleDisplayNone (attrs target))
                \<and> Some target \<noteq> documentBody p
            \<longrightarrow> isFocusableElement p target Loose
                \<and> handleOutsideClick p containers ev (Some target) = (ev, Some target))"
proof (intro conjI allI impI)
  assume "\<not> isFocusableElement p target Loose \<and> tabIndex target \<noteq> - 1"
  then show "handleOutsideClick p containers ev (Some target)
                  = (preventDefault ev, Some target)"
    by (simp add: handleOutsideClick_outside[OF np conn out])
next
  assume "cancelable ev"
  then show "defaultPrevented (preventDefault ev)" by (simp add: preventDefault_def)
next
  assume "isFocusableElement p target Loose \<or> tabIndex target = - 1"
  then show "handleOutsideClick p containers ev (Some target) = (ev, Some target)"
    by (auto simp: handleOutsideClick_outside[OF np conn out])
next
  fix n
  assume h: "tabindexAttr (attrs target) = Some n \<and> n \<noteq> - 1
                \<and> (nodeEnvTest p \<longrightarrow> \<not> styleDisplayNone (attrs target))
                \<and> Some target \<noteq> documentBody p"
  then show f: "isFocusableElement p target Loose"
    using explicit_tabindex_focusable by blast
  from h have "isFocusableElement p target Loose"
    using explicit_tabindex_focusable by blast
  then show "handleOutsideClick p containers ev (Some target) = (ev, Some target)"
    by (simp add: handleOutsideClick_outside[OF np conn out])
qed

lemmas outside_click_eval = isFocusableElement_def matches_def focusableSelector_def
  notTabindexMinusOne_def tabIndex_def tabIndexDefault_def isConnected_def
  resolveContainers_def contains_def clickEvent_def preventDefault_def

theorem handleOutsideClick_prevent_default_witness:
  "\<not> isFocusableElement scenario el_c Loose \<and> tabIndex el_c = 0
   \<and> handleOutsideClick scenario (OneContainer (Some el_a)) clickEvent (Some el_c)
     = (clickEvent\<lparr>defaultPrevented := True\<rparr>, Some el_c)
   \<and> handleOutsideClick scenario (OneContainer (Some el_a)) clickEvent (Some el_b)
     = (clickEvent, Some el_b)"
proof -
  let ?cs = "OneContainer (Some el_a)"
  have fc: "\<not> isFocusableElement scenario el_c Loose" and tc: "tabIndex el_c = 0"
    and fb: "isFocusableElement scenario el_b Loose"
    by (simp_all add: outside_click_eval scenario_defs)
  have 1: "\<not> defaultPrevented clickEvent" by (simp add: clickEvent_def)
  have 2: "isConnected scenario el_c" "isConnected scenario el_b"
    by (simp_all add: outside_click_eval scenario_defs)
  have 3: "\<not> insideContainers clickEvent el_c (resolveContainers ?cs)"
    "\<not> insideContainers clickEvent el_b (resolveContainers ?cs)"
    by (simp_all add: outside_click_eval scenario_defs)
  from handleOutsideClick_prevent_default[OF 1 2(1) 3(1)] fc tc
  have "handleOutsideClick scenario ?cs clickEvent (Some el_c)
          = (clickEvent\<lparr>defaultPrevented := True\<rparr>, Some el_c)"
    by (simp add: preventDefault_def clickEvent_def)
  moreover from handleOutsideClick_prevent_default[OF 1 2(2) 3(2)] fb
  have "handleOutsideClick scenario ?cs clickEvent (Some el_b) = (clickEvent, Some el_b)"
    by simp
  ultimately show ?thesis using fc tc by simp
qed

text \<open>
  A plain \<open>span\<close> outside the container is not focusable in Loose mode and has no
  \<open>tabindex\<close> attribute; its \<open>tabIndex\<close> is -1, and the callback is called without
  \<open>preventDefault\<close>: the event is as it was. The same happens for a \<open>div\<close> with
  \<open>tabindex="-1"\<close>.
\<close>

theorem handleOutsideClick_plain_span_counterexample:
  "\<not> isFocusableElement (scenario_with [el_a, el_span, el_neg]) el_span Loose
   \<and> tabindexAttr (attrs el_span) = None
   \<and> handleOutsideClick (scenario_with [el_a, el_span, el_neg]) (OneContainer (Some el_a))
        clickEvent (Some el_span)
     = (clickEvent, Some el_span)
   \<and> \<not> isFocusableElement (scenario_with [el_a, el_span, el_neg]) el_neg Loose
   \<and> tabindexAttr (attrs el_neg) = Some (- 1)
   \<and> handleOutsideClick (scenario_with [el_a, el_span, el_neg]) (OneContainer (Some el_a))
        clickEvent (Some el_neg)
     = (clickEvent, Some el_neg)
   \<and> cancelable clickEvent \<and> \<not> defaultPrevented clickEvent"
  by (simp add: handleOutsideClick_def getRootNode_def outside_click_eval scenario_defs)

text \<open>
  In the test build a \<open>div\<close> with \<open>tabindex="0"\<close> styled \<open>display: none\<close> does not match
  the selector, and \<open>preventDefault\<close> is called for it.
\<close>

lemma handleOutsideClick_test_build_hidden:
  "handleOutsideClick ((scenario_with [el_a, el_hidden])\<lparr>nodeEnvTest := True\<rparr>)
     (OneContainer (Some el_a)) clickEvent (Some el_hidden)
   = (clickEvent\<lparr>defaultPrevented := True\<rparr>, Some el_hidden)"
  by (simp add: handleOutsideClick_def getRootNode_def outside_click_eval scenario_defs)

section \<open>Properties of the initial-focus step\<close>




lemmas FocusTrapFeatures_defs = FocusTrapFeatures_None_def FocusTrapFeatures_InitialFocus_def
  FocusTrapFeatures_TabLock_def FocusTrapFeatures_FocusLock_def
  FocusTrapFeatures_RestoreFocus_def FocusTrapFeatures_AutoFocus_def






text \<open>
  The comment above \<open>useInitialFocus\<close> lists the first focusable element of the container
  after the \<open>data-autofocus\<close> element and before the fallback. The code does not follow
  it when AutoFocus is set: without a marked descendant it goes on to the fallback, and
  without a fallback it warns that there are no focusable elements, although a, b and d are
  focusable.
\<close>

lemma initialFocus_autofocus_skips_first_focusable:
  "getFocusableElements scenario (Some el_root) = [el_a, el_b, el_d]
   \<and> useInitialFocus scenario (FocusTrapFeatures_InitialFocus OR FocusTrapFeatures_AutoFocus) True
       (Some el_root) None None True (trapOn None)
     = Inr \<lparr>doc = \<lparr>activeElement = None, focusCalls = [], selectCalls = []\<rparr>,
            previousActiveElement = None,
            warnings = [''There are no focusable elements inside the <FocusTrap />'']\<rparr>"
  by (simp add: useInitialFocus_def initialFocus_task_def focusElement_def trapOn_def
        FocusTrapFeatures_defs focusIn_eval focusIn_elements_eval MAX_SAFE_INTEGER_def
        Focus_defs scenario_defs)

end
